theory Spec2Isabelle
  imports Main
begin

text \<open>
  The request lifecycle of the members area's training funds: the submission handler
  (cost breakdown, request identifier, stored request, notification of the approver) and
  the decision handler (field checks, token check, status transition, notifications),
  embedded as functions on an explicit world of store contents and effects, with the
  properties the specification states about them.
\<close>

section \<open>JavaScript numbers\<close>

text \<open>
  The handlers compute with JavaScript numbers, that is IEEE 754 binary64 values. Every
  finite double is a whole multiple of \<open>2^-1074\<close>, so a finite double is modelled by the
  integer number of such units it holds: \<open>Fin m\<close> is the double \<open>m * 2^-1074\<close>. A
  double has at most 53 significant bits and is smaller than \<open>2^1024\<close>, that is
  \<open>2^2098\<close> units. Negative zero is identified with zero: the code only adds and
  compares amounts, and neither tells the two zeros apart.
\<close>

datatype jsnum = NaN | PosInf | NegInf | Fin int

fun bit_length :: "nat \<Rightarrow> nat" where
  "bit_length n = (if n = 0 then 0 else Suc (bit_length (n div 2)))"

declare bit_length.simps [simp del]

text \<open>
  \<open>rnd53 m\<close> rounds the integer \<open>m\<close> to 53 significant bits, to the nearest such value
  and to the one with an even last bit on a tie: the rounding of every binary64 operation.
\<close>

definition rnd53 :: "int \<Rightarrow> int" where
  "rnd53 m =
     (let a = \<bar>m\<bar>; l = bit_length (nat a) in
      if l \<le> 53 then m
      else let p = 2 ^ (l - 53); q = a div p; r = a mod p; h = p div 2;
               q' = (if h < r \<or> (r = h \<and> odd q) then q + 1 else q)
           in sgn m * (q' * p))"

definition fl :: "int \<Rightarrow> jsnum" where
  "fl m =
     (let v = rnd53 m in
      if 2 ^ 2098 \<le> \<bar>v\<bar> then (if m < 0 then NegInf else PosInf) else Fin v)"

text \<open>The operator \<open>+\<close> on numbers.\<close>

fun js_add :: "jsnum \<Rightarrow> jsnum \<Rightarrow> jsnum" where
  "js_add (Fin a) (Fin b) = fl (a + b)"
| "js_add NaN _ = NaN"
| "js_add _ NaN = NaN"
| "js_add PosInf NegInf = NaN"
| "js_add NegInf PosInf = NaN"
| "js_add PosInf _ = PosInf"
| "js_add _ PosInf = PosInf"
| "js_add NegInf _ = NegInf"
| "js_add _ NegInf = NegInf"

text \<open>The comparison \<open>x > 0\<close>, and the values that count as false in \<open>x || y\<close>.\<close>

fun gt0 :: "jsnum \<Rightarrow> bool" where
  "gt0 (Fin m) = (0 < m)"
| "gt0 PosInf = True"
| "gt0 _ = False"

definition falsy :: "jsnum \<Rightarrow> bool" where
  "falsy x = (x = NaN \<or> x = Fin 0)"

definition js_or :: "jsnum \<Rightarrow> jsnum \<Rightarrow> jsnum" where
  "js_or x y = (if falsy x then y else x)"

text \<open>\<open>dyadic m e\<close> is the double \<open>m * 2^e\<close> (for \<open>\<bar>m\<bar> < 2^53\<close> and \<open>-1074 \<le> e\<close>).\<close>

definition dyadic :: "int \<Rightarrow> int \<Rightarrow> jsnum" where
  "dyadic m e = Fin (m * 2 ^ nat (e + 1074))"

section \<open>The cost breakdown\<close>

text \<open>
  The submitted form. Each amount field holds what \<open>parseFloat\<close> returns on it
  (\<open>NaN\<close> for an absent, empty or non-numeric field); each flag holds the truth value
  JavaScript gives the field; \<open>email\<close> is \<open>None\<close> when the field is not a string.
\<close>

record formData =
  email :: "string option"
  requester_name :: string
  registration_fee :: jsnum
  hotel_cost :: jsnum
  hotel_total :: jsnum
  flight_cost :: jsnum
  mileage_needed :: bool
  mileage_total :: jsnum
  mileage_miles :: string
  meals_needed :: bool
  meals_total :: jsnum
  pay_ahead_registration :: bool
  pay_ahead_hotel :: bool
  pay_ahead_flight :: bool

type_synonym items = "(string \<times> jsnum) list"

record CostBreakdown =
  registration :: jsnum
  hotel :: jsnum
  flight :: jsnum
  mileage :: jsnum
  meals :: jsnum
  totalCost :: jsnum
  prepaidItems :: items
  prepaidTotal :: jsnum
  reimbursementItems :: items
  reimbursementTotal :: jsnum

text \<open>
  One step of building a list: \<open>if (c) { items.push({label, amount}); total += amount }\<close>.
\<close>

definition push_item :: "bool \<Rightarrow> string \<Rightarrow> jsnum \<Rightarrow> items \<times> jsnum \<Rightarrow> items \<times> jsnum" where
  "push_item c label amount acc =
     (if c then (fst acc @ [(label, amount)], js_add (snd acc) amount) else acc)"

text \<open>
  \<open>calculateCostBreakdown\<close>, the same function in the submission handler and in the
  later copy of the decision handler.
\<close>

definition calculateCostBreakdown :: "formData \<Rightarrow> CostBreakdown" where
  "calculateCostBreakdown data =
     (let registration = js_or (registration_fee data) (Fin 0);
          hotel = js_or (hotel_cost data) (js_or (hotel_total data) (Fin 0));
          flight = js_or (flight_cost data) (Fin 0);
          mileage = (if mileage_needed data then js_or (mileage_total data) (Fin 0) else Fin 0);
          meals = (if meals_needed data then js_or (meals_total data) (Fin 0) else Fin 0);
          prepaid =
            push_item (pay_ahead_flight data \<and> gt0 flight) ''Airfare'' flight
             (push_item (pay_ahead_hotel data \<and> gt0 hotel) ''Hotel'' hotel
               (push_item (pay_ahead_registration data \<and> gt0 registration) ''Registration''
                  registration ([], Fin 0)));
          reimbursement =
            push_item (gt0 meals) ''Meals / Per Diem'' meals
             (push_item (gt0 mileage)
                (''Mileage ('' @ (if mileage_miles data = [] then ''?'' else mileage_miles data)
                   @ '' mi)'') mileage
               (push_item (\<not> pay_ahead_flight data \<and> gt0 flight) ''Airfare'' flight
                 (push_item (\<not> pay_ahead_hotel data \<and> gt0 hotel) ''Hotel'' hotel
                   (push_item (\<not> pay_ahead_registration data \<and> gt0 registration)
                      ''Registration'' registration ([], Fin 0)))))
      in \<lparr> registration = registration, hotel = hotel, flight = flight, mileage = mileage,
           meals = meals,
           totalCost = js_add (js_add (js_add (js_add registration hotel) flight) mileage) meals,
           prepaidItems = fst prepaid, prepaidTotal = snd prepaid,
           reimbursementItems = fst reimbursement, reimbursementTotal = snd reimbursement \<rparr>)"

text \<open>The total that \<open>formatEmailHtml\<close> prints in the approver's notification.\<close>

definition formatEmailHtml_totalCost :: "formData \<Rightarrow> jsnum" where
  "formatEmailHtml_totalCost data = totalCost (calculateCostBreakdown data)"

text \<open>
  The total that \<open>formatRequesterEmailHtml\<close> of the earlier copy of the decision handler
  computes: \<open>costs.reduce((sum, cost) => sum + cost, 0)\<close> over five parsed fields.
\<close>

definition formatRequesterEmailHtml_totalCost :: "formData \<Rightarrow> jsnum" where
  "formatRequesterEmailHtml_totalCost data =
     foldl js_add (Fin 0)
       [js_or (registration_fee data) (Fin 0),
        js_or (hotel_cost data) (Fin 0),
        js_or (flight_cost data) (Fin 0),
        js_or (mileage_total data) (Fin 0),
        js_or (meals_total data) (Fin 0)]"

section \<open>Text\<close>

text \<open>
  A string is modelled by the bytes of its UTF-8 encoding, one 8-bit character per byte:
  an ASCII character is one byte, a no-break space is the two bytes C2 A0. The sequence
  counter is a whole number, kept in the store as decimal text. A whole number of
  magnitude up to \<open>2^53\<close> is a double; beyond, a double is a whole number rounded to 53
  bits, so a counter is modelled by an integer (\<open>None\<close> for \<open>NaN\<close>) and every
  operation on it rounds with \<open>rnd53\<close>. \<open>String\<close> prints the decimal digits, as
  JavaScript does below \<open>10^21\<close>, where it turns to an exponent, and \<open>parseInt\<close> is
  as in JavaScript below \<open>2^1024\<close>, where it gives \<open>Infinity\<close>; the results below read
  and print counters up to \<open>2^53\<close> only.
\<close>

definition digit_char :: "nat \<Rightarrow> char" where
  "digit_char d = char_of (48 + d)"

fun digits :: "nat \<Rightarrow> string" where
  "digits n = (if n < 10 then [digit_char n] else digits (n div 10) @ [digit_char (n mod 10)])"

declare digits.simps [simp del]

text \<open>\<open>String(x)\<close> for a whole number or \<open>NaN\<close>.\<close>

definition String_num :: "int option \<Rightarrow> string" where
  "String_num x =
     (case x of
        None \<Rightarrow> ''NaN''
      | Some n \<Rightarrow> (if n < 0 then CHR ''-'' # digits (nat (- n)) else digits (nat n)))"

definition is_digit :: "char \<Rightarrow> bool" where
  "is_digit c = (48 \<le> (of_char c :: nat) \<and> (of_char c :: nat) \<le> 57)"

definition digit_val :: "char \<Rightarrow> nat" where
  "digit_val c = of_char c - 48"

text \<open>
  The white space that \<open>trim\<close> and \<open>parseInt\<close> strip, as UTF-8: the code points
  U+0009 to U+000D, U+0020, U+00A0, U+1680, U+2000 to U+200A, U+2028, U+2029, U+202F,
  U+205F, U+3000 and U+FEFF.
\<close>

definition white_space_utf8 :: "nat list list" where
  "white_space_utf8 =
     [[9], [10], [11], [12], [13], [32],
      [194, 160],
      [225, 154, 128],
      [226, 128, 128], [226, 128, 129], [226, 128, 130], [226, 128, 131], [226, 128, 132],
      [226, 128, 133], [226, 128, 134], [226, 128, 135], [226, 128, 136], [226, 128, 137],
      [226, 128, 138],
      [226, 128, 168], [226, 128, 169],
      [226, 128, 175],
      [226, 129, 159],
      [227, 128, 128],
      [239, 187, 191]]"

text \<open>The number of bytes of the white space code point a string starts with, or 0.\<close>

definition white_space_len :: "string \<Rightarrow> nat" where
  "white_space_len s =
     (case filter (\<lambda>ws. take (length ws) (map of_char s) = ws) white_space_utf8 of
        [] \<Rightarrow> 0
      | ws # _ \<Rightarrow> length ws)"

text \<open>The string without its leading white space.\<close>

function skip_space :: "string \<Rightarrow> string" where
  "skip_space s = (if white_space_len s = 0 then s else skip_space (drop (white_space_len s) s))"
  by pat_completeness auto
termination
proof (relation "measure length")
  show "wf (measure length)" by simp
next
  fix s :: string
  assume n: "white_space_len s \<noteq> 0"
  then obtain ws rest where
    f: "filter (\<lambda>ws. take (length ws) (map of_char s) = ws) white_space_utf8 = ws # rest"
    by (cases "filter (\<lambda>ws. take (length ws) (map of_char s) = ws) white_space_utf8")
       (simp_all add: white_space_len_def)
  then have "ws \<in> set (filter (\<lambda>ws. take (length ws) (map of_char s) = ws) white_space_utf8)"
    by (simp only: list.set_intros)
  then have "take (length ws) (map of_char s :: nat list) = ws"
    by (simp only: set_filter mem_Collect_eq)
  then have "length (take (length ws) (map of_char s :: nat list)) = length ws" by simp
  then have "length ws \<le> length (map of_char s :: nat list)" by simp
  moreover have "white_space_len s = length ws" using f by (simp add: white_space_len_def)
  ultimately have "0 < white_space_len s" and "white_space_len s \<le> length s"
    using n by simp_all
  then have "length s - white_space_len s < length s" by arith
  then show "(drop (white_space_len s) s, s) \<in> measure length" by simp
qed

declare skip_space.simps [simp del]

text \<open>
  \<open>parseInt(s, 10)\<close>: skip leading white space, read an optional sign, then the longest
  run of decimal digits; \<open>NaN\<close> when there is no digit, else the double nearest to the
  number read.
\<close>

definition parseInt :: "string \<Rightarrow> int option" where
  "parseInt s =
     (let t = skip_space s;
          neg = (t \<noteq> [] \<and> hd t = CHR ''-'');
          u = (if t \<noteq> [] \<and> (hd t = CHR ''-'' \<or> hd t = CHR ''+'') then tl t else t);
          z = takeWhile is_digit u
      in if z = [] then None
         else Some (rnd53 ((if neg then - 1 else 1) *
                int (foldl (\<lambda>a c. 10 * a + digit_val c) 0 z))))"

section \<open>The store\<close>

text \<open>
  A stored request, as the submission handler writes it and the decision handler updates
  it. The fields \<open>decidedAt\<close>, \<open>comments\<close> and \<open>requestId\<close> are absent until a
  decision is applied.
\<close>

record requestData =
  formData :: formData
  token :: string
  status :: string
  submittedAt :: string
  submittedBy :: string
  decidedAt :: "string option"
  comments :: "string option"
  requestId :: "string option"

text \<open>
  The blob store \<open>training-requests\<close> maps keys to strings. \<open>Text s\<close> is the string
  \<open>s\<close> itself (the counters); \<open>Json r\<close> is the string \<open>JSON.stringify(r)\<close> of a
  request, which \<open>JSON.parse\<close> reads back as \<open>r\<close>. The store is taken to answer
  every call.
\<close>

datatype blob = Text string | Json requestData

type_synonym store = "string \<Rightarrow> blob option"

text \<open>What a handler sends to the notifier, by envelope, and what it does to the world.\<close>

datatype mail =
    ApproverRequest string string string CostBreakdown
  | RequesterUpdate "string option" string string string
  | DisburserNotice string string string

datatype event = StoreSet string blob | Send mail

record world =
  blobs :: store
  trace :: "event list"

definition store_set :: "string \<Rightarrow> blob \<Rightarrow> world \<Rightarrow> world" where
  "store_set k v w = w \<lparr> blobs := (blobs w)(k \<mapsto> v), trace := trace w @ [StoreSet k v] \<rparr>"

definition send :: "mail \<Rightarrow> world \<Rightarrow> world" where
  "send m w = w \<lparr> trace := trace w @ [Send m] \<rparr>"

section \<open>The request identifier\<close>

definition username_of :: "string \<Rightarrow> string" where
  "username_of addr = takeWhile (\<lambda>c. c \<noteq> CHR ''@'') addr"

definition sequenceKey_of :: "string \<Rightarrow> string \<Rightarrow> string" where
  "sequenceKey_of addr dateStr = ''sequence-'' @ username_of addr @ ''-'' @ dateStr"

text \<open>
  The sequence number after the read: 1 when the key is absent or holds the empty
  string, else \<open>parseInt(existing, 10) + 1\<close>, a sum of doubles. The JSON text of a
  request starts with a brace, so \<open>parseInt\<close> gives \<open>NaN\<close> on it.
\<close>

definition next_sequence :: "blob option \<Rightarrow> int option" where
  "next_sequence existing =
     (case existing of
        None \<Rightarrow> Some 1
      | Some (Text s) \<Rightarrow>
          (if s = [] then Some 1 else map_option (\<lambda>n. rnd53 (n + 1)) (parseInt s))
      | Some (Json r) \<Rightarrow> None)"

text \<open>
  \<open>generateRequestId(email, store)\<close>; \<open>dateStr\<close> is the UTC date of the call as
  \<open>YYYYMMDD\<close>.
\<close>

definition generateRequestId :: "string \<Rightarrow> string \<Rightarrow> world \<Rightarrow> world \<times> string" where
  "generateRequestId addr dateStr w =
     (let username = username_of addr;
          prefix = username @ ''-'' @ dateStr;
          sequenceKey = ''sequence-'' @ prefix;
          sequence = next_sequence (blobs w sequenceKey)
      in (store_set sequenceKey (Text (String_num sequence)) w,
          prefix @ ''-'' @ String_num sequence))"

text \<open>The same call as two steps, split where it awaits the store.\<close>

datatype alloc = AllocStart string string | AllocRead string string "int option" | AllocDone string

fun alloc_step :: "world \<Rightarrow> alloc \<Rightarrow> world \<times> alloc" where
  "alloc_step w (AllocStart addr dateStr) =
     (w, AllocRead addr dateStr (next_sequence (blobs w (sequenceKey_of addr dateStr))))"
| "alloc_step w (AllocRead addr dateStr sequence) =
     (store_set (sequenceKey_of addr dateStr) (Text (String_num sequence)) w,
      AllocDone (username_of addr @ ''-'' @ dateStr @ ''-'' @ String_num sequence))"
| "alloc_step w (AllocDone i) = (w, AllocDone i)"

text \<open>\<open>n\<close> calls one after the other, with the identifiers in the order returned.\<close>

fun allocate_n :: "nat \<Rightarrow> string \<Rightarrow> string \<Rightarrow> world \<Rightarrow> world \<times> string list" where
  "allocate_n 0 addr dateStr w = (w, [])"
| "allocate_n (Suc n) addr dateStr w =
     (let (w1, i) = generateRequestId addr dateStr w;
          (w2, ids) = allocate_n n addr dateStr w1
      in (w2, i # ids))"

text \<open>
  Two calls in flight: the schedule says which call takes its next step (\<open>True\<close> the
  first, \<open>False\<close> the second). A call that has returned takes no further step.
\<close>

fun run2 :: "(world \<Rightarrow> 'p \<Rightarrow> world \<times> 'p) \<Rightarrow> bool list \<Rightarrow> world \<times> 'p \<times> 'p \<Rightarrow> world \<times> 'p \<times> 'p" where
  "run2 step [] cfg = cfg"
| "run2 step (True # sched) (w, a, b) = (let (w', a') = step w a in run2 step sched (w', a', b))"
| "run2 step (False # sched) (w, a, b) = (let (w', b') = step w b in run2 step sched (w', a, b'))"

section \<open>The handlers\<close>

text \<open>
  The environment variables; an unset variable and an empty one are both the empty
  string, as both count as false.
\<close>

record env =
  TRAINING_APPROVER_EMAIL :: string
  TRAINING_DISBURSER_EMAIL :: string
  RESEND_API_KEY :: string

datatype resp_body =
    ErrorJson string "string option"
  | SuccessJson string string "string option"
  | PlainText string
  | CommentsRequiredPage
  | AlreadyProcessedPage string
  | ConfirmationPage string string

record response =
  status_code :: nat
  body :: resp_body

text \<open>What \<open>resend.emails.send\<close> resolves to: \<open>{data: {id}}\<close> or \<open>{error: {message}}\<close>.\<close>

datatype send_result = Sent string | SendError string

subsection \<open>Submission\<close>

text \<open>
  The request as the handler sees it: the method, the e-mail address of the verified
  session (\<open>None\<close> when \<open>verifyUser\<close> returns null) and the parsed body (\<open>None\<close>
  when \<open>req.json()\<close> throws).
\<close>

record submission =
  s_method :: string
  session_user :: "string option"
  json_body :: "formData option"

definition failed_to_process :: response where
  "failed_to_process = \<lparr> status_code = 500, body = ErrorJson ''Failed to process request'' None \<rparr>"

text \<open>
  The submission handler. \<open>dateStr\<close> and \<open>now\<close> are the clock's answers, \<open>tok\<close> is
  what \<open>generateToken\<close> returns and \<open>result\<close> what the notifier answers if it is called.
\<close>

definition submission_handler ::
  "env \<Rightarrow> string \<Rightarrow> string \<Rightarrow> string \<Rightarrow> send_result \<Rightarrow> world \<Rightarrow> submission \<Rightarrow> response \<times> world" where
  "submission_handler env dateStr now tok result w req =
     (if s_method req \<noteq> ''POST''
      then (\<lparr> status_code = 405, body = ErrorJson ''Method not allowed'' None \<rparr>, w)
      else case session_user req of
        None \<Rightarrow> (\<lparr> status_code = 401, body = ErrorJson ''Unauthorized'' None \<rparr>, w)
      | Some user_email \<Rightarrow>
         (case json_body req of
            None \<Rightarrow> (failed_to_process, w)
          | Some fd \<Rightarrow>
             (case email fd of
                None \<Rightarrow> (failed_to_process, w)
              | Some addr \<Rightarrow>
                 (let (w1, rid) = generateRequestId addr dateStr w in
                  if TRAINING_APPROVER_EMAIL env = []
                  then (\<lparr> status_code = 500, body = ErrorJson
                          ''No approvers configured. Please contact the administrator.'' None \<rparr>, w1)
                  else if TRAINING_DISBURSER_EMAIL env = []
                  then (\<lparr> status_code = 500, body = ErrorJson
                          ''No disbursers configured. Please contact the administrator.'' None \<rparr>, w1)
                  else
                    let rd = \<lparr> formData = fd, token = tok, status = ''pending'',
                               submittedAt = now, submittedBy = user_email,
                               decidedAt = None, comments = None, requestId = None \<rparr>;
                        w2 = store_set rid (Json rd) w1
                    in if RESEND_API_KEY env = []
                       then (\<lparr> status_code = 500, body = ErrorJson
                               ''Email service not configured. Please contact the administrator.''
                               None \<rparr>, w2)
                       else
                         let w3 = send (ApproverRequest (TRAINING_APPROVER_EMAIL env) rid tok
                                          (calculateCostBreakdown fd)) w2
                         in (case result of
                               SendError msg \<Rightarrow>
                                 (\<lparr> status_code = 500, body = ErrorJson
                                      ''Failed to send notification email'' (Some msg) \<rparr>, w3)
                             | Sent mid \<Rightarrow>
                                 (\<lparr> status_code = 200, body = SuccessJson rid
                                      ''Request submitted successfully'' (Some mid) \<rparr>, w3))))))"

subsection \<open>Decision\<close>

text \<open>
  The posted form: the method and what \<open>URLSearchParams.get\<close> returns for each field
  (\<open>None\<close> for null, else the decoded string).
\<close>

record decision_form =
  d_method :: string
  p_requestId :: "string option"
  p_token :: "string option"
  p_decision :: "string option"
  p_comments :: "string option"

text \<open>A field as a string; null and the empty string both count as false.\<close>

definition field_text :: "string option \<Rightarrow> string" where
  "field_text x = (case x of None \<Rightarrow> [] | Some s \<Rightarrow> s)"

text \<open>\<open>!comments.trim()\<close>: nothing is left once the white space is stripped.\<close>

definition blank :: "string \<Rightarrow> bool" where
  "blank s = (skip_space s = [])"

text \<open>The checks before the store is read: \<open>Inl\<close> the response, or the four fields.\<close>

definition decide_validate :: "decision_form \<Rightarrow> response + string \<times> string \<times> string \<times> string" where
  "decide_validate req =
     (if d_method req \<noteq> ''POST''
      then Inl \<lparr> status_code = 405, body = PlainText ''Method not allowed'' \<rparr>
      else
        let rid = field_text (p_requestId req); tok = field_text (p_token req);
            dec = field_text (p_decision req); cm = field_text (p_comments req)
        in if rid = [] \<or> tok = [] \<or> dec = []
           then Inl \<lparr> status_code = 400, body = PlainText ''Missing required fields'' \<rparr>
           else if dec \<notin> set [''accepted'', ''sent_back'', ''rejected'']
           then Inl \<lparr> status_code = 400, body = PlainText ''Invalid decision value'' \<rparr>
           else if (dec = ''sent_back'' \<or> dec = ''rejected'') \<and> blank cm
           then Inl \<lparr> status_code = 400, body = CommentsRequiredPage \<rparr>
           else Inr (rid, tok, dec, cm))"

text \<open>
  What \<open>JSON.parse\<close> makes of a stored string that is not the JSON text of a request: it
  throws, or returns null, or returns a value with no \<open>token\<close>. The handlers take this
  library function on such strings as the parameter \<open>parse_text\<close>.
\<close>

datatype json_text = SyntaxError | JsonNull | JsonValue

text \<open>
  The checks on what the store returned: \<open>Inl\<close> the response, or the request to update.
  An exception takes the handler to its \<open>catch\<close> block.
\<close>

definition decide_check :: "(string \<Rightarrow> json_text) \<Rightarrow> blob option \<Rightarrow> string \<Rightarrow> response + requestData" where
  "decide_check parse_text storedData tok =
     (case storedData of
        None \<Rightarrow> Inl \<lparr> status_code = 404, body = PlainText ''Request not found'' \<rparr>
      | Some (Text s) \<Rightarrow>
          (if s = [] then Inl \<lparr> status_code = 404, body = PlainText ''Request not found'' \<rparr>
           else case parse_text s of
                  JsonValue \<Rightarrow> Inl \<lparr> status_code = 403, body = PlainText ''Invalid token'' \<rparr>
                | _ \<Rightarrow> Inl \<lparr> status_code = 500, body = PlainText ''Internal server error'' \<rparr>)
      | Some (Json rd) \<Rightarrow>
          (if token rd \<noteq> tok
           then Inl \<lparr> status_code = 403, body = PlainText ''Invalid token'' \<rparr>
           else if status rd \<noteq> ''pending''
           then Inl \<lparr> status_code = 400, body = AlreadyProcessedPage (status rd) \<rparr>
           else Inr rd))"

text \<open>
  The update and the notifications. What the notifier answers is only logged, so it is
  not a parameter.
\<close>

definition decide_commit ::
  "env \<Rightarrow> string \<Rightarrow> string \<Rightarrow> string \<Rightarrow> string \<Rightarrow> requestData \<Rightarrow> world \<Rightarrow> response \<times> world" where
  "decide_commit env now rid dec cm rd w =
     (let rd' = rd \<lparr> status := dec, decidedAt := Some now, comments := Some cm,
                      requestId := Some rid \<rparr>;
          w1 = store_set rid (Json rd') w;
          page = \<lparr> status_code = 200, body = ConfirmationPage dec rid \<rparr>
      in if RESEND_API_KEY env = [] then (page, w1)
         else
           let w2 = send (RequesterUpdate (email (formData rd')) rid dec cm) w1;
               w3 = (if dec = ''accepted'' \<and> TRAINING_DISBURSER_EMAIL env \<noteq> []
                     then send (DisburserNotice (TRAINING_DISBURSER_EMAIL env) rid cm) w2
                     else w2)
           in (page, w3))"

text \<open>The decision handler; \<open>now\<close> is the clock's answer when the update is made.\<close>

definition decide_handler ::
  "(string \<Rightarrow> json_text) \<Rightarrow> env \<Rightarrow> string \<Rightarrow> world \<Rightarrow> decision_form \<Rightarrow> response \<times> world" where
  "decide_handler parse_text env now w req =
     (case decide_validate req of
        Inl r \<Rightarrow> (r, w)
      | Inr (rid, tok, dec, cm) \<Rightarrow>
          (case decide_check parse_text (blobs w rid) tok of
             Inl r \<Rightarrow> (r, w)
           | Inr rd \<Rightarrow> decide_commit env now rid dec cm rd w))"

text \<open>The same call as two steps, split where it awaits the store.\<close>

datatype decide_call =
    Incoming decision_form string
  | Loaded string string string string string "blob option"
  | Responded response

fun decide_step :: "(string \<Rightarrow> json_text) \<Rightarrow> env \<Rightarrow> world \<Rightarrow> decide_call \<Rightarrow> world \<times> decide_call" where
  "decide_step parse_text env w (Incoming req now) =
     (case decide_validate req of
        Inl r \<Rightarrow> (w, Responded r)
      | Inr (rid, tok, dec, cm) \<Rightarrow> (w, Loaded now rid tok dec cm (blobs w rid)))"
| "decide_step parse_text env w (Loaded now rid tok dec cm storedData) =
     (case decide_check parse_text storedData tok of
        Inl r \<Rightarrow> (w, Responded r)
      | Inr rd \<Rightarrow> (let (r, w') = decide_commit env now rid dec cm rd w in (w', Responded r)))"
| "decide_step parse_text env w (Responded r) = (w, Responded r)"

text \<open>A sequence of decision calls, one after the other, each with its clock reading.\<close>

fun decide_all ::
  "(string \<Rightarrow> json_text) \<Rightarrow> env \<Rightarrow> (decision_form \<times> string) list \<Rightarrow> world \<Rightarrow> world" where
  "decide_all parse_text env [] w = w"
| "decide_all parse_text env ((req, now) # calls) w =
     decide_all parse_text env calls (snd (decide_handler parse_text env now w req))"

section \<open>Example inputs\<close>

text \<open>A form with no field filled in.\<close>

definition blank_form :: formData where
  "blank_form = \<lparr> email = None, requester_name = [], registration_fee = NaN, hotel_cost = NaN,
     hotel_total = NaN, flight_cost = NaN, mileage_needed = False, mileage_total = NaN,
     mileage_miles = [], meals_needed = False, meals_total = NaN,
     pay_ahead_registration = False, pay_ahead_hotel = False, pay_ahead_flight = False \<rparr>"

text \<open>
  Registration \<open>0.10\<close> paid ahead, hotel \<open>0.20\<close> and airfare \<open>0.30\<close> reimbursed: the
  doubles that \<open>parseFloat\<close> returns on \<open>"0.1"\<close>, \<open>"0.2"\<close> and \<open>"0.3"\<close>.
\<close>

definition rounding_form :: formData where
  "rounding_form = blank_form \<lparr>
     registration_fee := dyadic 3602879701896397 (- 55), pay_ahead_registration := True,
     hotel_cost := dyadic 3602879701896397 (- 54),
     flight_cost := dyadic 5404319552844595 (- 54) \<rparr>"

text \<open>
  The form of the specification's example: registration 120 paid ahead, hotel total 300
  and mileage 70 reimbursed, no meals.
\<close>

definition spec_example_form :: formData where
  "spec_example_form = blank_form \<lparr>
     registration_fee := dyadic 120 0, pay_ahead_registration := True,
     hotel_total := dyadic 300 0, mileage_needed := True, mileage_total := dyadic 70 0 \<rparr>"

text \<open>A form with only \<open>hotel_total\<close> filled in, and one with a negative fee.\<close>

definition hotel_total_form :: formData where
  "hotel_total_form = blank_form \<lparr> hotel_total := dyadic 300 0 \<rparr>"

definition negative_fee_form :: formData where
  "negative_fee_form = blank_form \<lparr> registration_fee := dyadic (- 5) 0 \<rparr>"

text \<open>A world with an empty store and nothing done yet.\<close>

definition empty_world :: world where
  "empty_world = \<lparr> blobs = (\<lambda>k. None), trace = [] \<rparr>"

text \<open>
  A configured environment, and a stand-in for \<open>JSON.parse\<close> on stored text that is not
  a request: no example decides on a key that holds such text.
\<close>

definition env0 :: env where
  "env0 = \<lparr> TRAINING_APPROVER_EMAIL = ''approver@x.org'',
            TRAINING_DISBURSER_EMAIL = ''pay@x.org'', RESEND_API_KEY = ''key'' \<rparr>"

definition parse_never :: "string \<Rightarrow> json_text" where
  "parse_never s = SyntaxError"

text \<open>Alice's submission, and the request it creates as the first of 15 March 2025.\<close>

definition alice_form :: formData where
  "alice_form = blank_form \<lparr> email := Some ''alice@x.org'', requester_name := ''Alice'' \<rparr>"

definition alice_submission :: submission where
  "alice_submission = \<lparr> s_method = ''POST'', session_user = Some ''alice@x.org'',
     json_body = Some alice_form \<rparr>"

definition alice_request :: requestData where
  "alice_request = \<lparr> formData = alice_form,
     token = ''t0k'', status = ''pending'', submittedAt = ''2025-03-15T10:00Z'',
     submittedBy = ''alice@x.org'', decidedAt = None, comments = None, requestId = None \<rparr>"

definition pending_world :: world where
  "pending_world = \<lparr> blobs = (\<lambda>k. None)(''alice-20250315-1'' \<mapsto> Json alice_request), trace = [] \<rparr>"

text \<open>
  Decision forms for that request: accept, reject with a comment, and two with a guessed
  token, one for the stored identifier and one for an identifier that is not stored.
\<close>

definition accept_form :: decision_form where
  "accept_form = \<lparr> d_method = ''POST'', p_requestId = Some ''alice-20250315-1'',
     p_token = Some ''t0k'', p_decision = Some ''accepted'', p_comments = None \<rparr>"

definition reject_form :: decision_form where
  "reject_form = \<lparr> d_method = ''POST'', p_requestId = Some ''alice-20250315-1'',
     p_token = Some ''t0k'', p_decision = Some ''rejected'', p_comments = Some ''too dear'' \<rparr>"

definition guess_form :: decision_form where
  "guess_form = accept_form \<lparr> p_token := Some ''guess'' \<rparr>"

definition guess_form_absent :: decision_form where
  "guess_form_absent = guess_form \<lparr> p_requestId := Some ''alice-20250315-2'' \<rparr>"

text \<open>A rejection whose comment is one no-break space, U+00A0.\<close>

definition nbsp_reject_form :: decision_form where
  "nbsp_reject_form = reject_form \<lparr> p_comments := Some [char_of (194 :: nat), char_of (160 :: nat)] \<rparr>"

text \<open>
  The store once Alice's request is in, with her counter at 1; a form with a guessed
  token that names the counter's key; and \<open>JSON.parse\<close> on the counter's text \<open>1\<close>, which
  is the number 1 (the stand-in is used on that text only).
\<close>

definition counter_world :: world where
  "counter_world = \<lparr> blobs = (\<lambda>k. None)(''sequence-alice-20250315'' \<mapsto> Text ''1'',
       ''alice-20250315-1'' \<mapsto> Json alice_request), trace = [] \<rparr>"

definition guess_form_counter :: decision_form where
  "guess_form_counter = guess_form \<lparr> p_requestId := Some ''sequence-alice-20250315'' \<rparr>"

definition parse_one :: "string \<Rightarrow> json_text" where
  "parse_one s = (if s = ''1'' then JsonValue else SyntaxError)"

section \<open>Notions used in the statements\<close>

text \<open>
  The key \<open>k\<close> holds the count \<open>c\<close>: it is absent and \<open>c\<close> is 0, or it holds the
  decimal text of \<open>c\<close>.
\<close>

definition counter_holds :: "world \<Rightarrow> string \<Rightarrow> nat \<Rightarrow> bool" where
  "counter_holds w k c = ((blobs w k = None \<and> c = 0) \<or> blobs w k = Some (Text (digits c)))"

text \<open>
  A schedule in which each of the two calls takes exactly its two steps, and the two
  schedules among them in which one call is over before the other starts.
\<close>

definition complete2 :: "bool list \<Rightarrow> bool" where
  "complete2 sched = (length (filter id sched) = 2 \<and> length (filter Not sched) = 2)"

definition sequential2 :: "bool list \<Rightarrow> bool" where
  "sequential2 sched = (sched = [True, True, False, False] \<or> sched = [False, False, True, True])"

text \<open>
  The invariant of a stored request: once it is not pending, \<open>decidedAt\<close> is set and the
  status is one of the three final values.
\<close>

definition record_ok :: "requestData \<Rightarrow> bool" where
  "record_ok r =
     (status r \<noteq> ''pending'' \<longrightarrow>
        decidedAt r \<noteq> None \<and> status r \<in> set [''accepted'', ''sent_back'', ''rejected''])"

text \<open>What a handler did, in order, between two worlds.\<close>

definition events_since :: "world \<Rightarrow> world \<Rightarrow> event list" where
  "events_since w0 w1 = drop (length (trace w0)) (trace w1)"



section \<open>Rounding and exact sums\<close>

lemma bit_length_bound: "n < 2 ^ bit_length n"
proof (induction n rule: bit_length.induct)
  case (1 n)
  show ?case
  proof (cases "n = 0")
    case True then show ?thesis by (simp add: bit_length.simps)
  next
    case False
    with 1 have "n div 2 < 2 ^ bit_length (n div 2)" by simp
    then have "n < 2 * 2 ^ bit_length (n div 2)" by linarith
    with False show ?thesis by (subst bit_length.simps) simp
  qed
qed

lemma bit_length_lower: "0 < n \<Longrightarrow> 2 ^ (bit_length n - 1) \<le> n"
proof (induction n rule: bit_length.induct)
  case (1 n)
  show ?case
  proof (cases "n div 2 = 0")
    case True
    with 1 have "n = 1" by linarith
    then show ?thesis by (simp add: bit_length.simps)
  next
    case False
    with 1 have ih: "2 ^ (bit_length (n div 2) - 1) \<le> n div 2" by simp
    from False have pos: "0 < bit_length (n div 2)" by (subst bit_length.simps) simp
    have "bit_length n = Suc (bit_length (n div 2))" using 1(2) by (subst bit_length.simps) simp
    then have "(2::nat) ^ (bit_length n - 1) = 2 * 2 ^ (bit_length (n div 2) - 1)"
      using pos by (cases "bit_length (n div 2)") simp_all
    with ih show ?thesis by linarith
  qed
qed

lemma bit_length_eqI: "2 ^ k \<le> n \<Longrightarrow> n < 2 ^ Suc k \<Longrightarrow> bit_length n = Suc k"
proof -
  assume lo: "2 ^ k \<le> n" and hi: "n < 2 ^ Suc k"
  have pos: "0 < n" using lo by (metis less_le_trans zero_less_numeral zero_less_power)
  have "(2::nat) ^ k < 2 ^ bit_length n" using lo bit_length_bound [of n] by linarith
  then have a: "k < bit_length n" using power_less_imp_less_exp [of 2 k "bit_length n"] by simp
  have "(2::nat) ^ (bit_length n - 1) < 2 ^ Suc k" using bit_length_lower [OF pos] hi by linarith
  then have "bit_length n - 1 < Suc k" using power_less_imp_less_exp [of 2 "bit_length n - 1" "Suc k"] by simp
  with a show ?thesis by linarith
qed

lemma bit_length_le: "n < 2 ^ k \<Longrightarrow> bit_length n \<le> k"
proof (cases "n = 0")
  case True then show ?thesis by (simp add: bit_length.simps)
next
  case False
  assume "n < 2 ^ k"
  moreover from False have "2 ^ (bit_length n - 1) \<le> n" using bit_length_lower [of n] by simp
  ultimately have "(2::nat) ^ (bit_length n - 1) < 2 ^ k" by linarith
  then have "bit_length n - 1 < k" using power_less_imp_less_exp [of 2 "bit_length n - 1" k] by simp
  then show ?thesis by linarith
qed

lemma bit_length_mult_pow2: "0 < n \<Longrightarrow> bit_length (n * 2 ^ j) = bit_length n + j"
proof -
  assume pos: "0 < n"
  then obtain k where k: "bit_length n = Suc k"
    by (subst (asm) bit_length.simps) (auto simp: bit_length.simps)
  have lo: "2 ^ k \<le> n" using bit_length_lower [OF pos] k by simp
  have hi: "n < 2 ^ Suc k" using bit_length_bound [of n] k by simp
  have "2 ^ (k + j) \<le> n * 2 ^ j" using lo by (simp add: power_add)
  moreover have "n * 2 ^ j < 2 ^ Suc (k + j)" using hi by (simp add: power_add)
  ultimately have "bit_length (n * 2 ^ j) = Suc (k + j)" by (rule bit_length_eqI)
  with k show ?thesis by simp
qed

lemma rnd53_small: "\<bar>m\<bar> < 2 ^ 53 \<Longrightarrow> rnd53 m = m"
proof -
  assume "\<bar>m\<bar> < 2 ^ 53"
  then have "nat \<bar>m\<bar> < 2 ^ 53" by (simp add: nat_less_iff)
  then have "bit_length (nat \<bar>m\<bar>) \<le> 53" by (rule bit_length_le)
  then show ?thesis by (simp add: rnd53_def Let_def)
qed

lemma rnd53_scale: "rnd53 (m * 2 ^ j) = rnd53 m * 2 ^ j"
proof (cases "m = 0")
  case True
  then show ?thesis by (simp add: rnd53_def bit_length.simps)
next
  case False
  define a where "a = \<bar>m\<bar>"
  define l where "l = bit_length (nat a)"
  have apos: "0 < a" using False by (simp add: a_def)
  have abs_eq: "\<bar>m * 2 ^ j\<bar> = a * 2 ^ j" by (simp add: a_def abs_mult)
  have "nat (a * 2 ^ j) = nat a * 2 ^ j" using apos by (simp add: nat_mult_distrib nat_power_eq)
  moreover have "0 < nat a" using apos by simp
  ultimately have L: "bit_length (nat (a * 2 ^ j)) = l + j"
    by (simp add: l_def bit_length_mult_pow2)
  have sg: "sgn (m * 2 ^ j) = sgn m" by (simp add: sgn_mult)
  have ma: "sgn m * a = m" by (simp add: a_def sgn_mult_abs)
  consider (A) "l + j \<le> 53" | (B) "l \<le> 53" "53 < l + j" | (C) "53 < l" by linarith
  then show ?thesis
  proof cases
    case A
    then have "l \<le> 53" by simp
    with A L show ?thesis by (simp add: rnd53_def Let_def abs_eq l_def [symmetric] a_def [symmetric])
  next
    case B
    define k where "k = l + j - 53"
    have kpos: "0 < k" using B by (simp add: k_def)
    have j: "j = (53 - l) + k" using B by (simp add: k_def)
    have fac: "a * 2 ^ j = (a * 2 ^ (53 - l)) * 2 ^ k" by (subst j) (simp add: power_add)
    have dv: "(a * 2 ^ j) div 2 ^ k = a * 2 ^ (53 - l)" by (subst fac) simp
    have md: "(a * 2 ^ j) mod 2 ^ k = 0" by (subst fac) simp
    have h: "0 < (2::int) ^ k div 2" using kpos by (cases k) simp_all
    have lhs: "rnd53 (m * 2 ^ j) = sgn m * ((a * 2 ^ (53 - l)) * 2 ^ k)"
      using B h by (simp add: rnd53_def Let_def L abs_eq sg dv md k_def [symmetric])
    have rhs: "rnd53 m = m" using B by (simp add: rnd53_def Let_def l_def a_def)
    show ?thesis unfolding lhs rhs using fac ma by (metis mult.assoc)
  next
    case C
    define p :: int where "p = 2 ^ (l - 53)"
    have ppos: "0 < p" by (simp add: p_def)
    have P: "(2::int) ^ (l + j - 53) = p * 2 ^ j" using C by (simp add: p_def power_add [symmetric])
    have peven: "p = 2 * (p div 2)" using C by (cases "l - 53") (simp_all add: p_def)
    have hP: "(p * 2 ^ j) div 2 = (p div 2) * 2 ^ j"
      by (subst peven) simp
    have dv: "(a * 2 ^ j) div (p * 2 ^ j) = a div p" by simp
    have md: "(a * 2 ^ j) mod (p * 2 ^ j) = (a mod p) * 2 ^ j" by simp
    have lhs: "rnd53 (m * 2 ^ j) = sgn m *
        ((if p div 2 < a mod p \<or> (a mod p = p div 2 \<and> odd (a div p)) then a div p + 1 else a div p)
           * (p * 2 ^ j))"
      using C by (simp add: rnd53_def Let_def L abs_eq sg P hP dv md)
    have rhs: "rnd53 m = sgn m *
        ((if p div 2 < a mod p \<or> (a mod p = p div 2 \<and> odd (a div p)) then a div p + 1 else a div p) * p)"
      using C by (simp add: rnd53_def Let_def l_def [symmetric] a_def [symmetric] p_def)
    show ?thesis unfolding lhs rhs by (simp add: mult.assoc)
  qed
qed

lemma fl_dyadic:
  assumes "- 1074 \<le> e" and "\<bar>rnd53 m\<bar> * 2 ^ nat (e + 1074) < 2 ^ 2098"
  shows "fl (m * 2 ^ nat (e + 1074)) = dyadic (rnd53 m) e"
proof -
  have "\<bar>rnd53 m * 2 ^ nat (e + 1074)\<bar> = \<bar>rnd53 m\<bar> * 2 ^ nat (e + 1074)"
    by (simp add: abs_mult)
  with assms(2) show ?thesis
    by (simp add: fl_def Let_def rnd53_scale dyadic_def)
qed

lemma js_add_dyadic:
  assumes "- 1074 \<le> e" and "\<bar>rnd53 (a + b)\<bar> * 2 ^ nat (e + 1074) < 2 ^ 2098"
  shows "js_add (dyadic a e) (dyadic b e) = dyadic (rnd53 (a + b)) e"
  using fl_dyadic [OF assms] by (simp add: dyadic_def distrib_right)

lemma js_add_exact:
  assumes "- 1074 \<le> e" and "e \<le> 971" and "\<bar>a + b\<bar> < 2 ^ 53"
  shows "js_add (dyadic a e) (dyadic b e) = dyadic (a + b) e"
proof -
  have r: "rnd53 (a + b) = a + b" using assms(3) by (rule rnd53_small)
  have "nat (e + 1074) \<le> 2045" using assms by simp
  then have "(2::int) ^ nat (e + 1074) \<le> 2 ^ 2045" by (rule power_increasing) simp
  moreover have "0 \<le> \<bar>a + b\<bar>" by simp
  ultimately have "\<bar>a + b\<bar> * 2 ^ nat (e + 1074) < 2 ^ 53 * 2 ^ 2045"
    using assms(3) by (intro mult_less_le_imp_less) simp_all
  then have "\<bar>rnd53 (a + b)\<bar> * 2 ^ nat (e + 1074) < 2 ^ 2098" by (simp add: r)
  from js_add_dyadic [OF assms(1) this] r show ?thesis by simp
qed

lemma dyadic_eq_iff [simp]: "dyadic a e = dyadic b e \<longleftrightarrow> a = b"
  by (simp add: dyadic_def)

lemma gt0_dyadic [simp]: "gt0 (dyadic n e) \<longleftrightarrow> 0 < n"
  by (simp add: dyadic_def zero_less_mult_iff)

lemma falsy_dyadic [simp]: "falsy (dyadic n e) \<longleftrightarrow> n = 0"
  by (simp add: dyadic_def falsy_def)

lemma dyadic_shift: "- 1074 \<le> e \<Longrightarrow> dyadic m (e + 1) = dyadic (2 * m) e"
proof -
  assume "- 1074 \<le> e"
  then have "nat (e + 1 + 1074) = Suc (nat (e + 1074))" by simp
  then show ?thesis by (simp add: dyadic_def)
qed

lemma tenths_at_55:
  "dyadic 3602879701896397 (- 54) = dyadic 7205759403792794 (- 55)"
  "dyadic 5404319552844595 (- 54) = dyadic 10808639105689190 (- 55)"
  "dyadic 5404319552844595 (- 53) = dyadic 21617278211378380 (- 55)"
  "dyadic 5404319552844596 (- 53) = dyadic 21617278211378384 (- 55)"
  "Fin 0 = dyadic 0 (- 55)"
  using dyadic_shift [of "- 55" 3602879701896397] dyadic_shift [of "- 55" 5404319552844595]
    dyadic_shift [of "- 54" 5404319552844595] dyadic_shift [of "- 55" 10808639105689190]
    dyadic_shift [of "- 54" 5404319552844596] dyadic_shift [of "- 55" 10808639105689192]
  by (simp_all add: dyadic_def)

lemma js_add_at_55:
  "\<bar>rnd53 (a + b)\<bar> < 2 ^ 60 \<Longrightarrow> js_add (dyadic a (- 55)) (dyadic b (- 55)) = dyadic (rnd53 (a + b)) (- 55)"
proof -
  assume "\<bar>rnd53 (a + b)\<bar> < 2 ^ 60"
  then have "\<bar>rnd53 (a + b)\<bar> * 2 ^ nat (- 55 + 1074) < 2 ^ 60 * 2 ^ nat (- 55 + 1074)"
    by (intro mult_strict_right_mono) simp_all
  then have "\<bar>rnd53 (a + b)\<bar> * 2 ^ nat (- 55 + 1074) < 2 ^ 2098" by simp
  then show ?thesis by (intro js_add_dyadic) simp_all
qed

lemma rnd53_tenth_sums:
  "rnd53 3602879701896397 = 3602879701896397"
  "rnd53 7205759403792794 = 7205759403792794"
  "rnd53 10808639105689191 = 10808639105689192"
  "rnd53 21617278211378382 = 21617278211378384"
  "rnd53 21617278211378384 = 21617278211378384"
  "rnd53 18014398509481984 = 18014398509481984"
  "rnd53 21617278211378381 = 21617278211378380"
  by (simp_all add: rnd53_def Let_def bit_length.simps)

lemma zero_dyadic: "Fin 0 = dyadic 0 e"
  by (simp add: dyadic_def)

lemma breakdown_amounts:
  "registration (calculateCostBreakdown data) = js_or (registration_fee data) (Fin 0)"
  "hotel (calculateCostBreakdown data) = js_or (hotel_cost data) (js_or (hotel_total data) (Fin 0))"
  "flight (calculateCostBreakdown data) = js_or (flight_cost data) (Fin 0)"
  "mileage (calculateCostBreakdown data) =
     (if mileage_needed data then js_or (mileage_total data) (Fin 0) else Fin 0)"
  "meals (calculateCostBreakdown data) =
     (if meals_needed data then js_or (meals_total data) (Fin 0) else Fin 0)"
  by (simp_all add: calculateCostBreakdown_def Let_def)

lemma breakdown_totals:
  "totalCost (calculateCostBreakdown data) =
     js_add (js_add (js_add (js_add (registration (calculateCostBreakdown data))
       (hotel (calculateCostBreakdown data))) (flight (calculateCostBreakdown data)))
       (mileage (calculateCostBreakdown data))) (meals (calculateCostBreakdown data))"
  "prepaidTotal (calculateCostBreakdown data) =
     snd (push_item (pay_ahead_flight data \<and> gt0 (flight (calculateCostBreakdown data))) ''Airfare''
            (flight (calculateCostBreakdown data))
      (push_item (pay_ahead_hotel data \<and> gt0 (hotel (calculateCostBreakdown data))) ''Hotel''
            (hotel (calculateCostBreakdown data))
      (push_item (pay_ahead_registration data \<and> gt0 (registration (calculateCostBreakdown data))) ''Registration''
            (registration (calculateCostBreakdown data)) ([], Fin 0))))"
  "reimbursementTotal (calculateCostBreakdown data) =
     snd (push_item (gt0 (meals (calculateCostBreakdown data))) ''Meals / Per Diem'' (meals (calculateCostBreakdown data))
      (push_item (gt0 (mileage (calculateCostBreakdown data)))
         (''Mileage ('' @ (if mileage_miles data = [] then ''?'' else mileage_miles data) @ '' mi)'') (mileage (calculateCostBreakdown data))
      (push_item (\<not> pay_ahead_flight data \<and> gt0 (flight (calculateCostBreakdown data))) ''Airfare''
            (flight (calculateCostBreakdown data))
      (push_item (\<not> pay_ahead_hotel data \<and> gt0 (hotel (calculateCostBreakdown data))) ''Hotel''
            (hotel (calculateCostBreakdown data))
      (push_item (\<not> pay_ahead_registration data \<and> gt0 (registration (calculateCostBreakdown data))) ''Registration''
            (registration (calculateCostBreakdown data)) ([], Fin 0))))))"
  by (simp_all add: calculateCostBreakdown_def Let_def push_item_def)

lemma snd_push_dyadic:
  assumes "- 1074 \<le> e" "e \<le> 971" "0 \<le> n" "0 \<le> t" "t + n < 2 ^ 53" "snd acc = dyadic t e"
  shows "snd (push_item c l (dyadic n e) acc) = dyadic (t + (if c then n else 0)) e"
  using assms by (simp add: push_item_def js_add_exact)

lemma push_chain3:
  assumes e: "- 1074 \<le> e" "e \<le> 971"
    and n: "0 \<le> n1" "0 \<le> n2" "0 \<le> n3" "n1 + n2 + n3 < 2 ^ 53"
  shows "snd (push_item c3 l3 (dyadic n3 e) (push_item c2 l2 (dyadic n2 e)
           (push_item c1 l1 (dyadic n1 e) ([], Fin 0)))) =
         dyadic (0 + (if c1 then n1 else 0) + (if c2 then n2 else 0) + (if c3 then n3 else 0)) e"
proof -
  note step = snd_push_dyadic [OF e]
  have s0: "snd (([]::items), Fin 0) = dyadic 0 e" by (simp add: dyadic_def)
  have s1: "snd (push_item c1 l1 (dyadic n1 e) ([], Fin 0)) = dyadic (0 + (if c1 then n1 else 0)) e"
    using n by (intro step s0) simp_all
  have s2: "snd (push_item c2 l2 (dyadic n2 e) (push_item c1 l1 (dyadic n1 e) ([], Fin 0))) =
      dyadic (0 + (if c1 then n1 else 0) + (if c2 then n2 else 0)) e"
    using n by (intro step s1) simp_all
  show ?thesis using n by (intro step s2) simp_all
qed

lemma push_chain5:
  assumes e: "- 1074 \<le> e" "e \<le> 971"
    and n: "0 \<le> n1" "0 \<le> n2" "0 \<le> n3" "0 \<le> n4" "0 \<le> n5" "n1 + n2 + n3 + n4 + n5 < 2 ^ 53"
  shows "snd (push_item c5 l5 (dyadic n5 e) (push_item c4 l4 (dyadic n4 e)
           (push_item c3 l3 (dyadic n3 e) (push_item c2 l2 (dyadic n2 e)
           (push_item c1 l1 (dyadic n1 e) ([], Fin 0)))))) =
         dyadic (0 + (if c1 then n1 else 0) + (if c2 then n2 else 0) + (if c3 then n3 else 0)
           + (if c4 then n4 else 0) + (if c5 then n5 else 0)) e"
proof -
  note step = snd_push_dyadic [OF e]
  have s3: "snd (push_item c3 l3 (dyadic n3 e) (push_item c2 l2 (dyadic n2 e)
           (push_item c1 l1 (dyadic n1 e) ([], Fin 0)))) =
         dyadic (0 + (if c1 then n1 else 0) + (if c2 then n2 else 0) + (if c3 then n3 else 0)) e"
    using n by (intro push_chain3 e) simp_all
  have s4: "snd (push_item c4 l4 (dyadic n4 e) (push_item c3 l3 (dyadic n3 e)
           (push_item c2 l2 (dyadic n2 e) (push_item c1 l1 (dyadic n1 e) ([], Fin 0))))) =
         dyadic (0 + (if c1 then n1 else 0) + (if c2 then n2 else 0) + (if c3 then n3 else 0)
           + (if c4 then n4 else 0)) e"
    using n by (intro step s3) simp_all
  show ?thesis using n by (intro step s4) simp_all
qed

section \<open>The cost breakdown: results\<close>

text \<open>
  Claim C3, as stated: for every form, \<open>prepaidTotal + reimbursementTotal == totalCost\<close>
  exactly. It fails on the rounding of doubles: with registration 0.1 paid ahead and
  hotel 0.2 and airfare 0.3 reimbursed, the two subtotals add up to 0.6 and the total is
  0.6000000000000001.
\<close>

theorem breakdown_partition_rounding_counterexample:
  "js_add (prepaidTotal (calculateCostBreakdown rounding_form))
     (reimbursementTotal (calculateCostBreakdown rounding_form)) = dyadic 5404319552844595 (- 53)
   \<and> totalCost (calculateCostBreakdown rounding_form) = dyadic 5404319552844596 (- 53)
   \<and> js_add (prepaidTotal (calculateCostBreakdown rounding_form))
     (reimbursementTotal (calculateCostBreakdown rounding_form))
       \<noteq> totalCost (calculateCostBreakdown rounding_form)"
proof -
  have t: "totalCost (calculateCostBreakdown rounding_form) = dyadic 5404319552844596 (- 53)"
    by (simp add: calculateCostBreakdown_def rounding_form_def blank_form_def Let_def js_or_def
        push_item_def tenths_at_55 js_add_at_55 rnd53_tenth_sums)
  have p: "js_add (prepaidTotal (calculateCostBreakdown rounding_form))
     (reimbursementTotal (calculateCostBreakdown rounding_form)) = dyadic 5404319552844595 (- 53)"
    by (simp add: calculateCostBreakdown_def rounding_form_def blank_form_def Let_def js_or_def
        push_item_def tenths_at_55 js_add_at_55 rnd53_tenth_sums)
  show ?thesis unfolding t p by simp
qed

text \<open>
  It also fails on a negative amount: a fee of -5 is part of the total and of neither
  subtotal.
\<close>

lemma breakdown_negative_fee:
  "totalCost (calculateCostBreakdown negative_fee_form) = dyadic (- 5) 0
   \<and> prepaidTotal (calculateCostBreakdown negative_fee_form) = Fin 0
   \<and> reimbursementTotal (calculateCostBreakdown negative_fee_form) = Fin 0"
proof -
  have z: "Fin 0 = dyadic 0 0" by (rule zero_dyadic)
  have "js_add (dyadic (- 5) 0) (dyadic 0 0) = dyadic (- 5 + 0) 0"
    by (rule js_add_exact) simp_all
  then have a: "js_add (dyadic (- 5) 0) (Fin 0) = dyadic (- 5) 0" by (simp add: z)
  show ?thesis
    by (simp add: calculateCostBreakdown_def negative_fee_form_def blank_form_def Let_def
        js_or_def push_item_def a) (simp add: falsy_def)
qed

text \<open>
  Claim C3, amended: when the five amounts the function works with are non-negative
  multiples of one power of two \<open>2^e\<close> (whole numbers for \<open>e = 0\<close>) and the multiples add
  up to less than \<open>2^53\<close>, then \<open>prepaidTotal + reimbursementTotal == totalCost\<close> exactly.
\<close>

theorem breakdown_partition_exact:
  assumes e: "- 1074 \<le> e" "e \<le> 971"
    and amounts:
      "registration (calculateCostBreakdown data) = dyadic n1 e"
      "hotel (calculateCostBreakdown data) = dyadic n2 e"
      "flight (calculateCostBreakdown data) = dyadic n3 e"
      "mileage (calculateCostBreakdown data) = dyadic n4 e"
      "meals (calculateCostBreakdown data) = dyadic n5 e"
    and nonneg: "0 \<le> n1" "0 \<le> n2" "0 \<le> n3" "0 \<le> n4" "0 \<le> n5"
    and bound: "n1 + n2 + n3 + n4 + n5 < 2 ^ 53"
  shows "js_add (prepaidTotal (calculateCostBreakdown data))
           (reimbursementTotal (calculateCostBreakdown data)) =
         totalCost (calculateCostBreakdown data)"
proof -
  let ?b = "calculateCostBreakdown data"
  have t: "totalCost ?b = dyadic (n1 + n2 + n3 + n4 + n5) e"
    using e nonneg bound unfolding breakdown_totals(1) amounts
    by (simp add: js_add_exact)
  have "n1 + n2 + n3 < 2 ^ 53" using nonneg bound by simp
  note p = push_chain3 [OF e nonneg(1-3) this]
  note r = push_chain5 [OF e nonneg bound]
  have "js_add (prepaidTotal ?b) (reimbursementTotal ?b) = dyadic (n1 + n2 + n3 + n4 + n5) e"
    unfolding breakdown_totals(2,3) amounts p r
    using e nonneg bound by (subst js_add_exact) (auto simp: gt0_dyadic)
  with t show ?thesis by simp
qed

theorem breakdown_partition_exact_witness:
  "registration (calculateCostBreakdown spec_example_form) = dyadic 120 0
   \<and> hotel (calculateCostBreakdown spec_example_form) = dyadic 300 0
   \<and> flight (calculateCostBreakdown spec_example_form) = dyadic 0 0
   \<and> mileage (calculateCostBreakdown spec_example_form) = dyadic 70 0
   \<and> meals (calculateCostBreakdown spec_example_form) = dyadic 0 0
   \<and> js_add (prepaidTotal (calculateCostBreakdown spec_example_form))
        (reimbursementTotal (calculateCostBreakdown spec_example_form)) =
      totalCost (calculateCostBreakdown spec_example_form)"
proof -
  have a: "registration (calculateCostBreakdown spec_example_form) = dyadic 120 0"
    "hotel (calculateCostBreakdown spec_example_form) = dyadic 300 0"
    "flight (calculateCostBreakdown spec_example_form) = dyadic 0 0"
    "mileage (calculateCostBreakdown spec_example_form) = dyadic 70 0"
    "meals (calculateCostBreakdown spec_example_form) = dyadic 0 0"
    by (simp_all add: breakdown_amounts spec_example_form_def blank_form_def js_or_def
        zero_dyadic [of 0] falsy_def [of NaN])
  from breakdown_partition_exact [OF _ _ a] a show ?thesis by simp
qed

text \<open>
  Claim C9: the submission path and the decision path compute the total with different
  fallbacks. For a form with \<open>hotel_total\<close> 300 and no \<open>hotel_cost\<close>, the approver's
  notification shows 300 and the requester's notification of the earlier copy of the
  decision handler computes 0.
\<close>

theorem totals_differ_between_paths:
  "\<exists>data. hotel_cost data = NaN \<and> hotel_total data = dyadic 300 0
     \<and> formatEmailHtml_totalCost data = dyadic 300 0
     \<and> formatRequesterEmailHtml_totalCost data = dyadic 0 0
     \<and> formatEmailHtml_totalCost data \<noteq> formatRequesterEmailHtml_totalCost data"
proof -
  have z: "Fin 0 = dyadic 0 0" by (rule zero_dyadic)
  have add: "js_add (dyadic a 0) (dyadic 0 0) = dyadic a 0" if "\<bar>a\<bar> < 2 ^ 53" for a
    using js_add_exact [of 0 a 0] that by simp
  have add': "js_add (dyadic 0 0) (dyadic a 0) = dyadic a 0" if "\<bar>a\<bar> < 2 ^ 53" for a
    using js_add_exact [of 0 0 a] that by simp
  have s: "formatEmailHtml_totalCost hotel_total_form = dyadic 300 0"
    by (simp add: formatEmailHtml_totalCost_def calculateCostBreakdown_def hotel_total_form_def
        blank_form_def Let_def js_or_def push_item_def z add add' falsy_def [of NaN])
  have d: "formatRequesterEmailHtml_totalCost hotel_total_form = dyadic 0 0"
    by (simp add: formatRequesterEmailHtml_totalCost_def hotel_total_form_def blank_form_def
        js_or_def z add falsy_def [of NaN])
  have "hotel_cost hotel_total_form = NaN \<and> hotel_total hotel_total_form = dyadic 300 0"
    by (simp add: hotel_total_form_def blank_form_def)
  with s d show ?thesis by (intro exI [of _ hotel_total_form]) simp
qed

section \<open>Counters and identifiers: results\<close>

lemma is_digit_digit_char: "d < 10 \<Longrightarrow> is_digit (digit_char d)"
  by (simp add: is_digit_def digit_char_def)

lemma digit_val_digit_char: "d < 10 \<Longrightarrow> digit_val (digit_char d) = d"
  by (simp add: digit_val_def digit_char_def)

lemma digits_nonempty: "digits n \<noteq> []"
  by (subst digits.simps) simp

lemma digits_all: "list_all is_digit (digits n)"
proof (induction n rule: digits.induct)
  case (1 n)
  show ?case
  proof (cases "n < 10")
    case True
    then show ?thesis by (subst digits.simps) (simp add: is_digit_digit_char)
  next
    case False
    with 1 have "list_all is_digit (digits (n div 10))" by simp
    with False show ?thesis by (subst digits.simps) (simp add: is_digit_digit_char)
  qed
qed

lemma digits_value: "foldl (\<lambda>a c. 10 * a + digit_val c) 0 (digits n) = n"
proof (induction n rule: digits.induct)
  case (1 n)
  show ?case
  proof (cases "n < 10")
    case True
    then show ?thesis by (subst digits.simps) (simp add: digit_val_digit_char)
  next
    case False
    with 1 have "foldl (\<lambda>a c. 10 * a + digit_val c) 0 (digits (n div 10)) = n div 10" by simp
    with False show ?thesis by (subst digits.simps) (simp add: digit_val_digit_char)
  qed
qed

lemma hd_digits: "is_digit (hd (digits n))"
  using digits_all [of n] digits_nonempty [of n] by (cases "digits n") simp_all

lemma hd_digits_not:
  "hd (digits n) \<noteq> CHR ''-''" "hd (digits n) \<noteq> CHR ''+''"
proof -
  have h: "is_digit (hd (digits n))" by (rule hd_digits)
  show "hd (digits n) \<noteq> CHR ''-''"
  proof
    assume "hd (digits n) = CHR ''-''"
    with h show False by (simp add: is_digit_def)
  qed
  show "hd (digits n) \<noteq> CHR ''+''"
  proof
    assume "hd (digits n) = CHR ''+''"
    with h show False by (simp add: is_digit_def)
  qed
qed

lemma white_space_len_digit: "is_digit c \<Longrightarrow> white_space_len (c # cs) = 0"
  by (simp add: white_space_len_def white_space_utf8_def is_digit_def)

lemma skip_space_digit: "is_digit c \<Longrightarrow> skip_space (c # cs) = c # cs"
  by (subst skip_space.simps) (simp add: white_space_len_digit)

lemma skip_space_digits: "skip_space (digits n) = digits n"
proof -
  obtain c cs where cs: "digits n = c # cs" using digits_nonempty [of n] by (cases "digits n") auto
  have "is_digit c" using hd_digits [of n] by (simp add: cs)
  then show ?thesis unfolding cs by (rule skip_space_digit)
qed

lemma parseInt_digits_rnd53: "parseInt (digits n) = Some (rnd53 (int n))"
proof -
  obtain c cs where cs: "digits n = c # cs" using digits_nonempty [of n] by (cases "digits n") auto
  have c: "c \<noteq> CHR ''-''" "c \<noteq> CHR ''+''"
    using hd_digits_not [of n] by (simp_all add: cs)
  have d: "skip_space (c # cs) = c # cs" using skip_space_digits [of n] by (simp only: cs)
  have "list_all is_digit (c # cs)" using digits_all [of n] by (simp add: cs)
  then have t: "takeWhile is_digit (c # cs) = c # cs" by (simp add: list_all_iff)
  have v: "foldl (\<lambda>a c. 10 * a + digit_val c) 0 (c # cs) = n"
    using digits_value [of n] by (simp only: cs)
  have u: "(if c # cs \<noteq> [] \<and> (hd (c # cs) = CHR ''-'' \<or> hd (c # cs) = CHR ''+'')
            then tl (c # cs) else c # cs) = c # cs"
    using c by simp
  have ng: "(c # cs \<noteq> [] \<and> hd (c # cs) = CHR ''-'') = False" using c by simp
  have "parseInt (c # cs) = Some (rnd53 (int n))"
    unfolding parseInt_def Let_def d u ng t v by simp
  then show ?thesis by (simp only: cs)
qed

lemma parseInt_digits: "n < 2 ^ 53 \<Longrightarrow> parseInt (digits n) = Some (int n)"
proof -
  assume "n < 2 ^ 53"
  then have "\<bar>int n\<bar> < 2 ^ 53" by simp
  then have "rnd53 (int n) = int n" by (rule rnd53_small)
  then show ?thesis by (simp only: parseInt_digits_rnd53)
qed

lemma digits_inj: "digits a = digits b \<Longrightarrow> a = b"
proof -
  assume "digits a = digits b"
  then have "foldl (\<lambda>a c. 10 * a + digit_val c) 0 (digits a) =
             foldl (\<lambda>a c. 10 * a + digit_val c) 0 (digits b)" by (rule arg_cong)
  then show ?thesis by (simp only: digits_value)
qed

lemma next_sequence_counter:
  assumes "counter_holds w k c" and "c + 1 < 2 ^ 53"
  shows "String_num (next_sequence (blobs w k)) = digits (c + 1)"
proof -
  from assms(1) consider "blobs w k = None" "c = 0" | "blobs w k = Some (Text (digits c))"
    by (auto simp: counter_holds_def)
  then show ?thesis
  proof cases
    case 1
    then show ?thesis by (simp add: next_sequence_def String_num_def)
  next
    case 2
    have p: "parseInt (digits c) = Some (int c)" using assms(2) by (simp add: parseInt_digits)
    have "\<bar>int c + 1\<bar> < 2 ^ 53" using assms(2) by simp
    then have r: "rnd53 (int c + 1) = int c + 1" by (rule rnd53_small)
    have "nat (int c + 1) = c + 1" by simp
    with 2 show ?thesis
      by (simp add: next_sequence_def String_num_def digits_nonempty p r)
  qed
qed

lemma generateRequestId_counter:
  assumes "counter_holds w (sequenceKey_of addr d) c" and "c + 1 < 2 ^ 53"
  shows "generateRequestId addr d w =
           (store_set (sequenceKey_of addr d) (Text (digits (c + 1))) w,
            username_of addr @ ''-'' @ d @ ''-'' @ digits (c + 1))"
  using next_sequence_counter [OF assms]
  by (simp add: generateRequestId_def Let_def sequenceKey_of_def)

lemma counter_holds_store_set: "counter_holds (store_set k (Text (digits c)) w) k c"
  by (simp add: counter_holds_def store_set_def)

lemma allocate_n_ids:
  "counter_holds w (sequenceKey_of addr d) c \<Longrightarrow> c + n < 2 ^ 53 \<Longrightarrow>
   snd (allocate_n n addr d w) =
     map (\<lambda>i. username_of addr @ ''-'' @ d @ ''-'' @ digits (c + i)) [1..<n + 1]
   \<and> counter_holds (fst (allocate_n n addr d w)) (sequenceKey_of addr d) (c + n)"
proof (induction n arbitrary: w c)
  case 0
  then show ?case by simp
next
  case (Suc n)
  let ?w1 = "store_set (sequenceKey_of addr d) (Text (digits (c + 1))) w"
  have b: "c + 1 < 2 ^ 53" "c + 1 + n < 2 ^ 53" using Suc.prems(2) by simp_all
  have g: "generateRequestId addr d w = (?w1, username_of addr @ ''-'' @ d @ ''-'' @ digits (c + 1))"
    by (rule generateRequestId_counter [OF Suc.prems(1) b(1)])
  have "counter_holds ?w1 (sequenceKey_of addr d) (c + 1)" by (rule counter_holds_store_set)
  from Suc.IH [OF this b(2)] have ih:
    "snd (allocate_n n addr d ?w1) =
       map (\<lambda>i. username_of addr @ ''-'' @ d @ ''-'' @ digits (c + 1 + i)) [1..<n + 1]"
    "counter_holds (fst (allocate_n n addr d ?w1)) (sequenceKey_of addr d) (c + 1 + n)"
    by simp_all
  have l: "[1..<Suc n + 1] = 1 # map Suc [1..<n + 1]"
    by (simp add: upt_conv_Cons map_Suc_upt del: upt_Suc)
  have m: "map (\<lambda>i. username_of addr @ ''-'' @ d @ ''-'' @ digits (c + i)) [1..<Suc n + 1] =
      (username_of addr @ ''-'' @ d @ ''-'' @ digits (c + 1)) #
      map (\<lambda>i. username_of addr @ ''-'' @ d @ ''-'' @ digits (c + 1 + i)) [1..<n + 1]"
    unfolding l by (simp add: comp_def del: upt_Suc)
  have a: "allocate_n (Suc n) addr d w =
      (fst (allocate_n n addr d ?w1),
       (username_of addr @ ''-'' @ d @ ''-'' @ digits (c + 1)) # snd (allocate_n n addr d ?w1))"
    by (simp add: g split_beta)
  show ?case unfolding a m using ih by simp
qed

lemma digits_eq_iff: "digits a = digits b \<longleftrightarrow> a = b"
  using digits_inj by auto

lemma request_id_inj:
  "username_of addr @ ''-'' @ d @ ''-'' @ digits a = username_of addr @ ''-'' @ d @ ''-'' @ digits b
     \<Longrightarrow> a = b"
  by (simp add: digits_inj)

lemma digits_small: "digits 1 = ''1''" "digits 2 = ''2''" "digits (Suc 0) = ''1''"
  by (simp_all add: digits.simps digit_char_def char_of_def bit_iff_odd)

lemma complete2_cases:
  assumes "complete2 sched"
  shows "sched \<in> set [[True, True, False, False], [False, False, True, True],
           [True, False, True, False], [True, False, False, True],
           [False, True, True, False], [False, True, False, True]]"
proof -
  have "length (filter id sched) + length (filter Not sched) = length sched"
    using sum_length_filter_compl [of id sched] by (simp add: comp_def)
  with assms have "length sched = 4" by (simp add: complete2_def)
  then obtain a b c d where s: "sched = [a, b, c, d]"
    by (auto simp: numeral_eq_Suc length_Suc_conv)
  from assms show ?thesis unfolding s complete2_def
    by (cases a; cases b; cases c; cases d) simp_all
qed

lemma next_sequence_after_write:
  "c + 1 < 2 ^ 53 \<Longrightarrow>
   String_num (next_sequence (blobs (store_set k (Text (digits c)) w) k)) = digits (c + 1)"
  by (rule next_sequence_counter) (rule counter_holds_store_set)

lemma alloc_steps_generateRequestId:
  "run2 alloc_step [True, True] (w, AllocStart addr d, b) =
     (fst (generateRequestId addr d w), AllocDone (snd (generateRequestId addr d w)), b)"
  by (simp add: generateRequestId_def sequenceKey_of_def Let_def)

text \<open>
  Claim C4: \<open>generateRequestId\<close> reads the count under
  \<open>sequence-<requesterLocalPart>-<dateStr>\<close> (absent means 0), adds one, writes the new
  count back and returns \<open><requesterLocalPart>-<dateStr>-<newCount>\<close>; so \<open>n\<close> calls one
  after the other for one requester and date return \<open>n\<close> distinct identifiers, numbered
  from the count plus 1 upwards in order (1 to \<open>n\<close> when the key was absent).
\<close>

theorem generateRequestId_sequential:
  assumes "counter_holds w (sequenceKey_of addr d) c" and "1 \<le> n" and "c + n < 2 ^ 53"
  shows "generateRequestId addr d w =
           (store_set (sequenceKey_of addr d) (Text (digits (c + 1))) w,
            username_of addr @ ''-'' @ d @ ''-'' @ digits (c + 1))
       \<and> snd (allocate_n n addr d w) =
           map (\<lambda>i. username_of addr @ ''-'' @ d @ ''-'' @ digits (c + i)) [1..<n + 1]
       \<and> distinct (snd (allocate_n n addr d w))
       \<and> counter_holds (fst (allocate_n n addr d w)) (sequenceKey_of addr d) (c + n)"
proof -
  note ids = allocate_n_ids [OF assms(1) assms(3)]
  have b: "c + 1 < 2 ^ 53" using assms(2) assms(3) by simp
  have "inj_on (\<lambda>i. username_of addr @ ''-'' @ d @ ''-'' @ digits (c + i)) (set [1..<n + 1])"
    by (rule inj_onI) (use request_id_inj in fastforce)
  then have "distinct (map (\<lambda>i. username_of addr @ ''-'' @ d @ ''-'' @ digits (c + i)) [1..<n + 1])"
    by (simp add: distinct_map)
  with ids generateRequestId_counter [OF assms(1) b] show ?thesis by simp
qed

theorem generateRequestId_sequential_witness:
  "counter_holds empty_world (sequenceKey_of ''alice@x.org'' ''20250315'') 0
   \<and> snd (allocate_n 2 ''alice@x.org'' ''20250315'' empty_world) =
       [''alice-20250315-1'', ''alice-20250315-2'']"
proof -
  have c: "counter_holds empty_world (sequenceKey_of ''alice@x.org'' ''20250315'') 0"
    by (simp add: counter_holds_def empty_world_def)
  have l: "[1..<2 + 1] = [1, 2::nat]" by (simp add: upt_conv_Cons)
  from generateRequestId_sequential [OF c, of 2]
  have "snd (allocate_n 2 ''alice@x.org'' ''20250315'' empty_world) =
      map (\<lambda>i. username_of ''alice@x.org'' @ ''-'' @ ''20250315'' @ ''-'' @ digits (0 + i)) [1..<2 + 1]"
    by simp
  then have "snd (allocate_n 2 ''alice@x.org'' ''20250315'' empty_world) =
       [''alice-20250315-1'', ''alice-20250315-2'']"
    unfolding l by (simp add: username_of_def digits_small)
  with c show ?thesis by simp
qed

text \<open>
  Claim C5, as stated: no two allocations ever return the same identifier, also when two
  calls for one requester and date run concurrently. It fails when both calls read the
  counter before either writes it: both return \<open>alice-20250315-1\<close>.
\<close>

theorem allocation_interleaved_counterexample:
  "complete2 [True, False, True, False]
   \<and> snd (run2 alloc_step [True, False, True, False]
        (empty_world, AllocStart ''alice@x.org'' ''20250315'', AllocStart ''alice@x.org'' ''20250315''))
     = (AllocDone ''alice-20250315-1'', AllocDone ''alice-20250315-1'')"
  by (simp add: complete2_def empty_world_def next_sequence_def String_num_def username_of_def
      sequenceKey_of_def digits_small)

text \<open>
  Claim C5, amended: two calls for one requester and date return different identifiers
  when one call is over before the other starts; in every other schedule of their steps
  both calls read the same count and return the same identifier.
\<close>

theorem allocation_schedules:
  assumes "counter_holds w (sequenceKey_of addr d) c" and "c + 2 < 2 ^ 53" and "complete2 sched"
  shows "\<exists>w' ia ib.
           run2 alloc_step sched (w, AllocStart addr d, AllocStart addr d) =
             (w', AllocDone ia, AllocDone ib)
         \<and> (if sequential2 sched
            then {ia, ib} = {username_of addr @ ''-'' @ d @ ''-'' @ digits (c + 1),
                             username_of addr @ ''-'' @ d @ ''-'' @ digits (c + 2)} \<and> ia \<noteq> ib
            else ia = username_of addr @ ''-'' @ d @ ''-'' @ digits (c + 1) \<and> ib = ia)"
proof -
  have b: "c + 1 < 2 ^ 53" "Suc c + 1 < 2 ^ 53" using assms(2) by simp_all
  note r = next_sequence_counter [OF assms(1) b(1)]
  note a = next_sequence_after_write [OF b(2)]
  note ne = digits_eq_iff
  have two: "c + 1 + 1 = c + 2" by simp
  from complete2_cases [OF assms(3)]
  consider "sched = [True, True, False, False]" | "sched = [False, False, True, True]"
    | "sched = [True, False, True, False]" | "sched = [True, False, False, True]"
    | "sched = [False, True, True, False]" | "sched = [False, True, False, True]"
    by auto
  then show ?thesis
  proof cases
    case 1
    then show ?thesis
      by (simp add: sequential2_def r a two ne doubleton_eq_iff)
  next
    case 2
    then show ?thesis
      by (simp add: sequential2_def r a two ne doubleton_eq_iff)
  next
    case 3
    then show ?thesis by (simp add: sequential2_def r)
  next
    case 4
    then show ?thesis by (simp add: sequential2_def r)
  next
    case 5
    then show ?thesis by (simp add: sequential2_def r)
  next
    case 6
    then show ?thesis by (simp add: sequential2_def r)
  qed
qed

theorem allocation_schedules_witness:
  "counter_holds empty_world (sequenceKey_of ''alice@x.org'' ''20250315'') 0
   \<and> complete2 [True, True, False, False]
   \<and> (\<exists>w' ia ib.
         run2 alloc_step [True, True, False, False]
           (empty_world, AllocStart ''alice@x.org'' ''20250315'', AllocStart ''alice@x.org'' ''20250315'')
           = (w', AllocDone ia, AllocDone ib)
         \<and> ia \<noteq> ib)"
proof -
  have c: "counter_holds empty_world (sequenceKey_of ''alice@x.org'' ''20250315'') 0"
    by (simp add: counter_holds_def empty_world_def)
  have s: "complete2 [True, True, False, False]" by (simp add: complete2_def)
  have q: "sequential2 [True, True, False, False]" by (simp add: sequential2_def)
  from allocation_schedules [OF c _ s] q
  have "\<exists>w' ia ib.
         run2 alloc_step [True, True, False, False]
           (empty_world, AllocStart ''alice@x.org'' ''20250315'', AllocStart ''alice@x.org'' ''20250315'')
           = (w', AllocDone ia, AllocDone ib)
         \<and> ia \<noteq> ib"
    by (simp only: if_True) fastforce
  with c s show ?thesis by simp
qed

section \<open>The decision handler: results\<close>

lemma blobs_store_set [simp]: "blobs (store_set k v w) = (blobs w)(k \<mapsto> v)"
  by (simp add: store_set_def)

lemma blobs_send [simp]: "blobs (send m w) = blobs w"
  by (simp add: send_def)

lemma trace_store_set [simp]: "trace (store_set k v w) = trace w @ [StoreSet k v]"
  by (simp add: store_set_def)

lemma trace_send [simp]: "trace (send m w) = trace w @ [Send m]"
  by (simp add: send_def)

lemma events_since_append [simp]:
  "trace w1 = trace w0 @ evs \<Longrightarrow> events_since w0 w1 = evs"
  by (simp add: events_since_def)

lemma events_since_self [simp]: "events_since w w = []"
  by (simp add: events_since_def)

lemma decide_validate_Inr:
  assumes "decide_validate req = Inr (rid, tok, dec, cm)"
  shows "rid \<noteq> []" and "tok \<noteq> []"
    and "dec = ''accepted'' \<or> dec = ''sent_back'' \<or> dec = ''rejected''"
    and "dec \<noteq> ''pending''"
    and "rid = field_text (p_requestId req)"
  using assms by (auto simp: decide_validate_def Let_def split: if_splits)

lemma decide_check_Inr:
  assumes "decide_check parse_text v tok = Inr rd"
  shows "v = Some (Json rd)" and "token rd = tok" and "status rd = ''pending''"
  using assms
  by (auto simp: decide_check_def split: option.splits blob.splits if_splits json_text.splits)




lemma decide_commit_blobs:
  "blobs (snd (decide_commit env now rid dec cm rd w)) =
     (blobs w)(rid \<mapsto> Json (rd \<lparr> status := dec, decidedAt := Some now, comments := Some cm,
                                   requestId := Some rid \<rparr>))"
  by (simp add: decide_commit_def Let_def)

lemma decide_handler_frozen:
  assumes "blobs w k = Some (Json r)" and "status r \<noteq> ''pending''"
  shows "blobs (snd (decide_handler parse_text env now w req)) k = Some (Json r)"
proof (cases "decide_validate req")
  case (Inl resp)
  with assms show ?thesis by (simp add: decide_handler_def)
next
  case (Inr args)
  obtain rid tok dec cm where args: "args = (rid, tok, dec, cm)" by (cases args) auto
  show ?thesis
  proof (cases "decide_check parse_text (blobs w rid) tok")
    case (Inl resp)
    with Inr args assms show ?thesis by (simp add: decide_handler_def)
  next
    case (Inr rd)
    from decide_check_Inr [OF Inr] assms have "rid \<noteq> k" by auto
    with Inr \<open>decide_validate req = Inr args\<close> args assms show ?thesis
      by (simp add: decide_handler_def decide_commit_blobs)
  qed
qed










lemma decide_steps_handler:
  "run2 (decide_step parse_text env) [True, True] (w, Incoming req now, b) =
     (snd (decide_handler parse_text env now w req),
      Responded (fst (decide_handler parse_text env now w req)), b)"
  by (auto simp: decide_handler_def split_beta split: sum.splits)

lemma guess_form_valid:
  "decide_validate guess_form = Inr (''alice-20250315-1'', ''guess'', ''accepted'', [])"
  "decide_validate guess_form_absent = Inr (''alice-20250315-2'', ''guess'', ''accepted'', [])"
  by (simp_all add: decide_validate_def guess_form_def guess_form_absent_def accept_form_def
      field_text_def Let_def)

lemma guess_form_counter_valid:
  "decide_validate guess_form_counter = Inr (''sequence-alice-20250315'', ''guess'', ''accepted'', [])"
  by (simp add: decide_validate_def guess_form_counter_def guess_form_def accept_form_def
      field_text_def Let_def)

lemma counter_world_blobs:
  "blobs counter_world ''sequence-alice-20250315'' = Some (Text ''1'')"
  "blobs counter_world ''alice-20250315-1'' = Some (Json alice_request)"
  "blobs counter_world ''alice-20250315-2'' = None"
  by (simp_all add: counter_world_def)










text \<open>
  Claim C7, as stated: a decision call with a token that matches no stored token gets the
  same answer whether or not its identifier is stored. It fails: the answer is 403 for a
  stored identifier and 404 for one that is not stored.
\<close>

theorem wrong_token_leaks_existence_counterexample:
  "fst (decide_handler parse_never env0 ''2025-03-16T08:00Z'' pending_world guess_form) =
     \<lparr> status_code = 403, body = PlainText ''Invalid token'' \<rparr>
   \<and> fst (decide_handler parse_never env0 ''2025-03-16T08:00Z'' pending_world guess_form_absent) =
     \<lparr> status_code = 404, body = PlainText ''Request not found'' \<rparr>
   \<and> fst (decide_handler parse_never env0 ''2025-03-16T08:00Z'' pending_world guess_form) \<noteq>
     fst (decide_handler parse_never env0 ''2025-03-16T08:00Z'' pending_world guess_form_absent)"
  by (simp add: decide_handler_def guess_form_valid decide_check_def pending_world_def
      alice_request_def)

text \<open>
  Claim C7, amended: a decision call that passes the field checks gets 404 "Request not
  found" when its identifier names no key of the store (or a key holding the empty
  string) and 403 "Invalid token" when a request is stored there under another token;
  when the identifier names a key that holds other text, such as a sequence counter, it
  gets 403 "Invalid token" if \<open>JSON.parse\<close> returns a value for that text and 500 if it
  throws or returns null. In every case the world is left as it was.
\<close>

theorem wrong_token_responses:
  assumes "decide_validate req = Inr (rid, tok, dec, cm)"
  shows "(blobs w rid = None \<or> blobs w rid = Some (Text []) \<longrightarrow>
            decide_handler parse_text env now w req =
              (\<lparr> status_code = 404, body = PlainText ''Request not found'' \<rparr>, w))
       \<and> (\<forall>rd. blobs w rid = Some (Json rd) \<and> token rd \<noteq> tok \<longrightarrow>
            decide_handler parse_text env now w req =
              (\<lparr> status_code = 403, body = PlainText ''Invalid token'' \<rparr>, w))
       \<and> (\<forall>s. blobs w rid = Some (Text s) \<and> s \<noteq> [] \<longrightarrow>
            decide_handler parse_text env now w req =
              (if parse_text s = JsonValue
               then \<lparr> status_code = 403, body = PlainText ''Invalid token'' \<rparr>
               else \<lparr> status_code = 500, body = PlainText ''Internal server error'' \<rparr>, w))"
  using assms by (auto simp: decide_handler_def decide_check_def split: json_text.splits)

theorem wrong_token_responses_witness:
  "decide_validate guess_form = Inr (''alice-20250315-1'', ''guess'', ''accepted'', [])
   \<and> decide_validate guess_form_absent = Inr (''alice-20250315-2'', ''guess'', ''accepted'', [])
   \<and> decide_validate guess_form_counter =
       Inr (''sequence-alice-20250315'', ''guess'', ''accepted'', [])
   \<and> blobs counter_world ''alice-20250315-1'' = Some (Json alice_request)
   \<and> token alice_request \<noteq> ''guess''
   \<and> blobs counter_world ''alice-20250315-2'' = None
   \<and> blobs counter_world ''sequence-alice-20250315'' = Some (Text ''1'')
   \<and> decide_handler parse_one env0 ''2025-03-16T08:00Z'' counter_world guess_form =
       (\<lparr> status_code = 403, body = PlainText ''Invalid token'' \<rparr>, counter_world)
   \<and> decide_handler parse_one env0 ''2025-03-16T08:00Z'' counter_world guess_form_absent =
       (\<lparr> status_code = 404, body = PlainText ''Request not found'' \<rparr>, counter_world)
   \<and> decide_handler parse_one env0 ''2025-03-16T08:00Z'' counter_world guess_form_counter =
       (\<lparr> status_code = 403, body = PlainText ''Invalid token'' \<rparr>, counter_world)"
proof -
  have t: "token alice_request \<noteq> ''guess''" by (simp add: alice_request_def)
  have n: "''1'' \<noteq> ([] :: string)" by simp
  have p: "parse_one ''1'' = JsonValue" by (simp add: parse_one_def)
  from wrong_token_responses [OF guess_form_valid(1), of counter_world parse_one env0
      "''2025-03-16T08:00Z''"] counter_world_blobs(2) t
  have a: "decide_handler parse_one env0 ''2025-03-16T08:00Z'' counter_world guess_form =
       (\<lparr> status_code = 403, body = PlainText ''Invalid token'' \<rparr>, counter_world)"
    by blast
  from wrong_token_responses [OF guess_form_valid(2), of counter_world parse_one env0
      "''2025-03-16T08:00Z''"] counter_world_blobs(3)
  have b: "decide_handler parse_one env0 ''2025-03-16T08:00Z'' counter_world guess_form_absent =
       (\<lparr> status_code = 404, body = PlainText ''Request not found'' \<rparr>, counter_world)"
    by blast
  from wrong_token_responses [OF guess_form_counter_valid, of counter_world parse_one env0
      "''2025-03-16T08:00Z''"] counter_world_blobs(1) n
  have "decide_handler parse_one env0 ''2025-03-16T08:00Z'' counter_world guess_form_counter =
       (if parse_one ''1'' = JsonValue
        then \<lparr> status_code = 403, body = PlainText ''Invalid token'' \<rparr>
        else \<lparr> status_code = 500, body = PlainText ''Internal server error'' \<rparr>, counter_world)"
    by blast
  then have c: "decide_handler parse_one env0 ''2025-03-16T08:00Z'' counter_world guess_form_counter =
       (\<lparr> status_code = 403, body = PlainText ''Invalid token'' \<rparr>, counter_world)"
    using p by simp
  from guess_form_valid guess_form_counter_valid counter_world_blobs t a b c
  show ?thesis by (simp only: simp_thms)
qed

section \<open>The submission handler: results\<close>

lemma generateRequestId_eq:
  "generateRequestId addr d w =
     (store_set (sequenceKey_of addr d) (Text (String_num (next_sequence (blobs w (sequenceKey_of addr d))))) w,
      username_of addr @ ''-'' @ d @ ''-'' @ String_num (next_sequence (blobs w (sequenceKey_of addr d))))"
  by (simp add: generateRequestId_def sequenceKey_of_def Let_def)




lemma submission_handler_stored:
  assumes "s_method req = ''POST''" and "session_user req = Some u" and "json_body req = Some fd"
    and "email fd = Some addr"
    and "TRAINING_APPROVER_EMAIL env \<noteq> []" and "TRAINING_DISBURSER_EMAIL env \<noteq> []"
  shows "submission_handler env d now tok result w req =
     (let sq = String_num (next_sequence (blobs w (sequenceKey_of addr d)));
          rid = username_of addr @ ''-'' @ d @ ''-'' @ sq;
          rd = \<lparr> formData = fd, token = tok, status = ''pending'', submittedAt = now,
                 submittedBy = u, decidedAt = None, comments = None, requestId = None \<rparr>;
          w2 = store_set rid (Json rd) (store_set (sequenceKey_of addr d) (Text sq) w);
          w3 = send (ApproverRequest (TRAINING_APPROVER_EMAIL env) rid tok
                       (calculateCostBreakdown fd)) w2
      in if RESEND_API_KEY env = []
         then (\<lparr> status_code = 500, body = ErrorJson
                  ''Email service not configured. Please contact the administrator.'' None \<rparr>, w2)
         else (case result of
                 SendError msg \<Rightarrow>
                   (\<lparr> status_code = 500, body = ErrorJson
                        ''Failed to send notification email'' (Some msg) \<rparr>, w3)
               | Sent mid \<Rightarrow>
                   (\<lparr> status_code = 200, body = SuccessJson rid
                        ''Request submitted successfully'' (Some mid) \<rparr>, w3)))"
  using assms by (simp add: submission_handler_def generateRequestId_eq Let_def)

lemma submission_handler_early:
  assumes "s_method req \<noteq> ''POST'' \<or> session_user req = None \<or> json_body req = None
      \<or> (\<exists>fd. json_body req = Some fd \<and> email fd = None)"
  shows "snd (submission_handler env d now tok result w req) = w"
    and "body (fst (submission_handler env d now tok result w req)) \<in>
           {ErrorJson ''Method not allowed'' None, ErrorJson ''Unauthorized'' None,
            ErrorJson ''Failed to process request'' None}"
  using assms
  by (auto simp: submission_handler_def failed_to_process_def split: option.splits)

lemma submission_handler_unconfigured:
  assumes "s_method req = ''POST''" and "session_user req = Some u" and "json_body req = Some fd"
    and "email fd = Some addr"
    and "TRAINING_APPROVER_EMAIL env = [] \<or> TRAINING_DISBURSER_EMAIL env = []"
  shows "snd (submission_handler env d now tok result w req) =
           store_set (sequenceKey_of addr d)
             (Text (String_num (next_sequence (blobs w (sequenceKey_of addr d))))) w"
    and "body (fst (submission_handler env d now tok result w req)) \<in>
           {ErrorJson ''No approvers configured. Please contact the administrator.'' None,
            ErrorJson ''No disbursers configured. Please contact the administrator.'' None}"
  using assms by (auto simp: submission_handler_def generateRequestId_eq Let_def)

lemma submission_created:
  assumes run: "submission_handler env d now tok result w0 req = (resp, w1)"
    and ev: "StoreSet rid (Json r0) \<in> set (events_since w0 w1)"
  shows "status r0 = ''pending''" and "decidedAt r0 = None" and "blobs w1 rid = Some (Json r0)"
proof -
  have s: "snd (submission_handler env d now tok result w0 req) = w1" using run by simp
  have early: "\<not> (s_method req \<noteq> ''POST'' \<or> session_user req = None \<or> json_body req = None
      \<or> (\<exists>fd. json_body req = Some fd \<and> email fd = None))"
  proof
    assume a: "s_method req \<noteq> ''POST'' \<or> session_user req = None \<or> json_body req = None
      \<or> (\<exists>fd. json_body req = Some fd \<and> email fd = None)"
    from submission_handler_early(1) [OF a, of env d now tok result w0] s ev
    show False by simp
  qed
  then obtain u fd addr where req: "s_method req = ''POST''" "session_user req = Some u"
    "json_body req = Some fd" "email fd = Some addr"
    by auto
  have conf: "TRAINING_APPROVER_EMAIL env \<noteq> []" "TRAINING_DISBURSER_EMAIL env \<noteq> []"
  proof -
    have "\<not> (TRAINING_APPROVER_EMAIL env = [] \<or> TRAINING_DISBURSER_EMAIL env = [])"
    proof
      assume a: "TRAINING_APPROVER_EMAIL env = [] \<or> TRAINING_DISBURSER_EMAIL env = []"
      have "trace w1 = trace w0 @ [StoreSet (sequenceKey_of addr d)
          (Text (String_num (next_sequence (blobs w0 (sequenceKey_of addr d)))))]"
        using submission_handler_unconfigured(1) [OF req a, of d now tok result w0] s by simp
      from events_since_append [OF this] ev show False by simp
    qed
    then show "TRAINING_APPROVER_EMAIL env \<noteq> []" "TRAINING_DISBURSER_EMAIL env \<noteq> []" by simp_all
  qed
  define sq where "sq = String_num (next_sequence (blobs w0 (sequenceKey_of addr d)))"
  define rid' where "rid' = username_of addr @ ''-'' @ d @ ''-'' @ sq"
  define rd where "rd = \<lparr> formData = fd, token = tok, status = ''pending'', submittedAt = now,
                   submittedBy = u, decidedAt = None, comments = None, requestId = None \<rparr>"
  define w2 where "w2 = store_set rid' (Json rd) (store_set (sequenceKey_of addr d) (Text sq) w0)"
  define w3 where "w3 = send (ApproverRequest (TRAINING_APPROVER_EMAIL env) rid' tok
                       (calculateCostBreakdown fd)) w2"
  note h = submission_handler_stored [OF req conf, of d now tok result w0,
      unfolded Let_def, folded sq_def, folded rid'_def, folded rd_def, folded w2_def, folded w3_def]
  have w1: "w1 = w2 \<or> w1 = w3"
    using s h by (cases result) (auto split: if_splits)
  have "trace w1 = trace w0 @ [StoreSet (sequenceKey_of addr d) (Text sq), StoreSet rid' (Json rd)]
      \<or> trace w1 = trace w0 @ [StoreSet (sequenceKey_of addr d) (Text sq), StoreSet rid' (Json rd),
           Send (ApproverRequest (TRAINING_APPROVER_EMAIL env) rid' tok (calculateCostBreakdown fd))]"
    using w1 by (auto simp: w2_def w3_def)
  with ev have eq: "rid = rid'" "r0 = rd"
    by (auto dest!: events_since_append)
  show "status r0 = ''pending''" "decidedAt r0 = None" by (simp_all add: eq rd_def)
  show "blobs w1 rid = Some (Json r0)" using w1 by (auto simp: eq w2_def w3_def)
qed

lemma decide_handler_record_ok:
  assumes "blobs w k = Some (Json r)" and "record_ok r"
  shows "\<exists>r'. blobs (snd (decide_handler parse_text env now w req)) k = Some (Json r') \<and> record_ok r'"
proof (cases "decide_validate req")
  case (Inl resp)
  with assms show ?thesis by (simp add: decide_handler_def)
next
  case (Inr args)
  obtain rid tok dec cm where args: "args = (rid, tok, dec, cm)" by (cases args) auto
  note v = Inr [unfolded args]
  show ?thesis
  proof (cases "decide_check parse_text (blobs w rid) tok")
    case (Inl resp)
    with v assms show ?thesis by (simp add: decide_handler_def)
  next
    case (Inr rd)
    have "record_ok (rd \<lparr> status := dec, decidedAt := Some now, comments := Some cm,
                          requestId := Some rid \<rparr>)"
      using decide_validate_Inr(3) [OF v] by (auto simp: record_ok_def)
    with Inr v assms show ?thesis
      by (simp add: decide_handler_def decide_commit_blobs)
  qed
qed

lemma decide_all_record_ok:
  "blobs w k = Some (Json r) \<Longrightarrow> record_ok r \<Longrightarrow>
     \<exists>r'. blobs (decide_all parse_text env calls w) k = Some (Json r') \<and> record_ok r'"
proof (induction calls arbitrary: w r)
  case Nil
  then show ?case by simp
next
  case (Cons call calls)
  obtain req now where call: "call = (req, now)" by (cases call) auto
  from decide_handler_record_ok [OF Cons.prems, of parse_text env now req]
  obtain r1 where "blobs (snd (decide_handler parse_text env now w req)) k = Some (Json r1)"
    and "record_ok r1" by blast
  from Cons.IH [OF this] show ?case by (simp add: call)
qed

lemma alice_submitted:
  "submission_handler env0 ''20250315'' ''2025-03-15T10:00Z'' ''t0k'' result empty_world
     alice_submission =
   (case result of
      SendError msg \<Rightarrow> \<lparr> status_code = 500, body = ErrorJson
                          ''Failed to send notification email'' (Some msg) \<rparr>
    | Sent mid \<Rightarrow> \<lparr> status_code = 200, body = SuccessJson ''alice-20250315-1''
                          ''Request submitted successfully'' (Some mid) \<rparr>,
    send (ApproverRequest ''approver@x.org'' ''alice-20250315-1'' ''t0k''
            (calculateCostBreakdown alice_form))
      (store_set ''alice-20250315-1'' (Json alice_request)
        (store_set ''sequence-alice-20250315'' (Text ''1'') empty_world)))"
proof -
  have k: "sequenceKey_of ''alice@x.org'' ''20250315'' = ''sequence-alice-20250315''"
    "username_of ''alice@x.org'' = ''alice''"
    by (simp_all add: sequenceKey_of_def username_of_def)
  have sq: "String_num (next_sequence (blobs empty_world ''sequence-alice-20250315'')) = ''1''"
    by (simp add: empty_world_def next_sequence_def String_num_def digits_small)
  have p: "s_method alice_submission = ''POST''"
    "session_user alice_submission = Some ''alice@x.org''"
    "json_body alice_submission = Some alice_form" "email alice_form = Some ''alice@x.org''"
    "TRAINING_APPROVER_EMAIL env0 \<noteq> []" "TRAINING_DISBURSER_EMAIL env0 \<noteq> []"
    by (simp_all add: alice_submission_def alice_form_def env0_def)
  have e: "RESEND_API_KEY env0 \<noteq> []" "TRAINING_APPROVER_EMAIL env0 = ''approver@x.org''"
    by (simp_all add: env0_def)
  note h = submission_handler_stored [OF p,
      of "''20250315''" "''2025-03-15T10:00Z''" "''t0k''" result empty_world]
  show ?thesis unfolding h Let_def k sq
    by (cases result) (simp_all add: e alice_request_def)
qed

lemma trace_empty_world [simp]: "trace empty_world = []"
  by (simp add: empty_world_def)

lemma blobs_empty_world [simp]: "blobs empty_world k = None"
  by (simp add: empty_world_def)

text \<open>
  Claim C8: when the notifier is not configured or sending the approver's notification
  fails, the submission handler answers with an error and never with success.
\<close>

theorem submission_fails_closed:
  assumes "RESEND_API_KEY env = [] \<or> result = SendError msg"
  shows "status_code (fst (submission_handler env d now tok result w req)) \<noteq> 200
       \<and> (\<exists>e details. body (fst (submission_handler env d now tok result w req)) = ErrorJson e details)"
  using assms
  by (auto simp: submission_handler_def generateRequestId_eq failed_to_process_def Let_def
      split: option.splits)

theorem submission_fails_closed_witness:
  "status_code (fst (submission_handler env0 ''20250315'' ''2025-03-15T10:00Z'' ''t0k''
      (SendError ''down'') empty_world alice_submission)) = 500
   \<and> body (fst (submission_handler env0 ''20250315'' ''2025-03-15T10:00Z'' ''t0k''
      (SendError ''down'') empty_world alice_submission)) =
      ErrorJson ''Failed to send notification email'' (Some ''down'')"
proof -
  have "RESEND_API_KEY env0 = [] \<or> SendError ''down'' = SendError ''down''" by simp
  from submission_fails_closed [OF this, of "''20250315''" "''2025-03-15T10:00Z''" "''t0k''"
      empty_world alice_submission]
  have "status_code (fst (submission_handler env0 ''20250315'' ''2025-03-15T10:00Z'' ''t0k''
      (SendError ''down'') empty_world alice_submission)) \<noteq> 200" by simp
  then show ?thesis by (simp add: alice_submitted)
qed



text \<open>
  Claim C6: for the request a submission creates, and after any sequence of decision
  calls: a status other than pending implies that \<open>decidedAt\<close> is set and the status is
  accepted, sent_back or rejected; and no decision call changes a request that is not
  pending, so none returns to pending.
\<close>

theorem lifecycle_invariant:
  assumes "submission_handler env d now tok result w0 req = (resp, w1)"
    and "StoreSet rid (Json r0) \<in> set (events_since w0 w1)"
  shows "status r0 = ''pending'' \<and> blobs w1 rid = Some (Json r0)
       \<and> (\<forall>calls. \<exists>r. blobs (decide_all parse_text env2 calls w1) rid = Some (Json r) \<and> record_ok r)
       \<and> (\<forall>w k r now2 req2.
             blobs w k = Some (Json r) \<and> status r \<noteq> ''pending'' \<longrightarrow>
             blobs (snd (decide_handler parse_text env2 now2 w req2)) k = Some (Json r))"
proof -
  note c = submission_created [OF assms]
  have "record_ok r0" using c(1) by (simp add: record_ok_def)
  with c(3) have "\<exists>r. blobs (decide_all parse_text env2 calls w1) rid = Some (Json r) \<and> record_ok r"
    for calls by (rule decide_all_record_ok)
  with c decide_handler_frozen show ?thesis by blast
qed

theorem lifecycle_invariant_witness:
  "StoreSet ''alice-20250315-1'' (Json alice_request) \<in>
     set (events_since empty_world (snd (submission_handler env0 ''20250315'' ''2025-03-15T10:00Z''
        ''t0k'' (Sent ''m1'') empty_world alice_submission)))
   \<and> (\<exists>r. blobs (decide_all parse_never env0 [(accept_form, ''2025-03-16T08:00Z'')]
         (snd (submission_handler env0 ''20250315'' ''2025-03-15T10:00Z''
            ''t0k'' (Sent ''m1'') empty_world alice_submission))) ''alice-20250315-1'' = Some (Json r)
       \<and> record_ok r \<and> status r = ''accepted'')"
proof -
  let ?H = "submission_handler env0 ''20250315'' ''2025-03-15T10:00Z'' ''t0k''
      (Sent ''m1'') empty_world alice_submission"
  have run: "?H = (fst ?H, snd ?H)" by simp
  have ev: "StoreSet ''alice-20250315-1'' (Json alice_request) \<in>
     set (events_since empty_world (snd ?H))"
    by (simp add: alice_submitted events_since_def)
  from lifecycle_invariant [OF run ev, of parse_never env0]
  obtain r where r: "blobs (decide_all parse_never env0 [(accept_form, ''2025-03-16T08:00Z'')]
         (snd ?H)) ''alice-20250315-1'' = Some (Json r)" "record_ok r"
    by blast
  have "blobs (decide_all parse_never env0 [(accept_form, ''2025-03-16T08:00Z'')]
         (snd ?H)) ''alice-20250315-1'' =
      Some (Json (alice_request \<lparr> status := ''accepted'', decidedAt := Some ''2025-03-16T08:00Z'',
         comments := Some [], requestId := Some ''alice-20250315-1'' \<rparr>))"
    by (simp add: alice_submitted decide_handler_def decide_validate_def accept_form_def
        field_text_def Let_def decide_check_def alice_request_def decide_commit_blobs)
  with r have "status r = ''accepted''" by simp
  with ev r show ?thesis by blast
qed

section \<open>The model on known values\<close>

text \<open>Rounding to 53 bits goes to the nearest value, and to the even one on a tie.\<close>

lemma rnd53_examples:
  "rnd53 (2 ^ 53 + 1) = 2 ^ 53"
  "rnd53 (2 ^ 53 + 3) = 2 ^ 53 + 4"
  "rnd53 (- (2 ^ 53 + 3)) = - (2 ^ 53 + 4)"
  "rnd53 (2 ^ 54 + 5) = 2 ^ 54 + 4"
  "rnd53 (2 ^ 54 + 6) = 2 ^ 54 + 8"
  "rnd53 (2 ^ 54 - 1) = 2 ^ 54"
  by (simp_all add: rnd53_def Let_def bit_length.simps)

text \<open>\<open>0.1 + 0.2\<close> is \<open>0.30000000000000004\<close>, and the largest double doubled is infinite.\<close>

lemma js_add_examples:
  "js_add (dyadic 3602879701896397 (- 55)) (dyadic 3602879701896397 (- 54)) =
     dyadic 5404319552844596 (- 54)"
  "js_add (dyadic (2 ^ 53 - 1) 971) (dyadic (2 ^ 53 - 1) 971) = PosInf"
proof -
  have "dyadic 5404319552844596 (- 54) = dyadic 10808639105689192 (- 55)"
    using dyadic_shift [of "- 55" 5404319552844596] by simp
  then show "js_add (dyadic 3602879701896397 (- 55)) (dyadic 3602879701896397 (- 54)) =
     dyadic 5404319552844596 (- 54)"
    by (simp add: tenths_at_55 js_add_at_55 rnd53_tenth_sums)
  have "rnd53 ((2 ^ 53 - 1 + (2 ^ 53 - 1)) * 2 ^ 2045) = (2 ^ 54 - 2) * 2 ^ 2045"
    unfolding rnd53_scale by (simp add: rnd53_def Let_def bit_length.simps)
  then show "js_add (dyadic (2 ^ 53 - 1) 971) (dyadic (2 ^ 53 - 1) 971) = PosInf"
    by (simp add: dyadic_def fl_def Let_def distrib_right [symmetric])
qed

text \<open>
  \<open>trim\<close> strips a no-break space, a line separator and a byte order mark as it strips a
  space, so a rejection whose comment is a no-break space is answered "comments required".
\<close>

lemma blank_examples:
  "blank []" "blank ''  ''" "\<not> blank ''too dear''" "\<not> blank '' x ''"
  "blank [char_of (194::nat), char_of (160::nat)]"
  "blank [char_of (226::nat), char_of (128::nat), char_of (168::nat), CHR '' '']"
  "blank [char_of (239::nat), char_of (187::nat), char_of (191::nat)]"
  by (simp_all add: blank_def skip_space.simps white_space_len_def white_space_utf8_def)

lemma decide_handler_blank_comment:
  "decide_handler parse_text env now w nbsp_reject_form =
     (\<lparr> status_code = 400, body = CommentsRequiredPage \<rparr>, w)"
  by (simp add: decide_handler_def decide_validate_def nbsp_reject_form_def reject_form_def
      field_text_def Let_def blank_def skip_space.simps white_space_len_def white_space_utf8_def)

text \<open>
  At \<open>2^53\<close> the counter stops: \<open>2^53 + 1\<close> is not a double, the sum rounds back to
  \<open>2^53\<close> and the same text is written again.
\<close>

lemma rnd53_2_53: "rnd53 9007199254740992 = 9007199254740992"
  "rnd53 9007199254740993 = 9007199254740992"
  by (simp_all add: rnd53_def Let_def bit_length.simps)

lemma counter_stops_at_2_53:
  "counter_holds w (sequenceKey_of addr d) (2 ^ 53) \<Longrightarrow>
     generateRequestId addr d w =
       (store_set (sequenceKey_of addr d) (Text (digits (2 ^ 53))) w,
        username_of addr @ ''-'' @ d @ ''-'' @ digits (2 ^ 53))"
proof -
  assume "counter_holds w (sequenceKey_of addr d) (2 ^ 53)"
  then have b: "blobs w (sequenceKey_of addr d) = Some (Text (digits (2 ^ 53)))"
    by (simp add: counter_holds_def)
  have "parseInt (digits 9007199254740992) = Some 9007199254740992"
    using parseInt_digits_rnd53 [of 9007199254740992] by (simp add: rnd53_2_53)
  then have "String_num (next_sequence (Some (Text (digits 9007199254740992)))) =
      digits 9007199254740992"
    by (simp add: next_sequence_def digits_nonempty rnd53_2_53 String_num_def)
  then show ?thesis using b by (simp add: generateRequestId_eq)
qed

text \<open>\<open>parseInt\<close> skips white space, reads a sign and stops at the first non-digit.\<close>

lemma parseInt_examples:
  "parseInt ''12abc'' = Some 12" "parseInt '' -7'' = Some (- 7)" "parseInt ''007'' = Some 7"
  "parseInt ''abc'' = None" "parseInt ''+'' = None" "parseInt ''NaN'' = None"
  by (simp_all add: parseInt_def Let_def skip_space.simps white_space_len_def
      white_space_utf8_def is_digit_def digit_val_def rnd53_small)

lemma String_num_examples:
  "String_num (Some 1203) = ''1203''" "String_num (Some (- 40)) = ''-40''"
  "String_num None = ''NaN''"
  by (simp_all add: String_num_def digits.simps digit_char_def char_of_def bit_iff_odd)

text \<open>
  The specification's example: 120 is paid ahead, 370 is reimbursed and the total is 490.
\<close>

lemma spec_example_breakdown:
  "prepaidItems (calculateCostBreakdown spec_example_form) = [(''Registration'', dyadic 120 0)]"
  "prepaidTotal (calculateCostBreakdown spec_example_form) = dyadic 120 0"
  "reimbursementItems (calculateCostBreakdown spec_example_form) =
     [(''Hotel'', dyadic 300 0), (''Mileage (? mi)'', dyadic 70 0)]"
  "reimbursementTotal (calculateCostBreakdown spec_example_form) = dyadic 370 0"
  "totalCost (calculateCostBreakdown spec_example_form) = dyadic 490 0"
proof -
  have z: "Fin 0 = dyadic 0 0" by (rule zero_dyadic)
  have add: "js_add (dyadic a 0) (dyadic b 0) = dyadic (a + b) 0" if "\<bar>a + b\<bar> < 2 ^ 53" for a b
    using js_add_exact [of 0 a b] that by simp
  show "prepaidItems (calculateCostBreakdown spec_example_form) = [(''Registration'', dyadic 120 0)]"
    "prepaidTotal (calculateCostBreakdown spec_example_form) = dyadic 120 0"
    "reimbursementItems (calculateCostBreakdown spec_example_form) =
      [(''Hotel'', dyadic 300 0), (''Mileage (? mi)'', dyadic 70 0)]"
    "reimbursementTotal (calculateCostBreakdown spec_example_form) = dyadic 370 0"
    "totalCost (calculateCostBreakdown spec_example_form) = dyadic 490 0"
    by (simp_all add: calculateCostBreakdown_def spec_example_form_def blank_form_def Let_def
        js_or_def push_item_def z add falsy_def [of NaN])
qed

end
